theory Spec2Isabelle
  imports Complex_Main "HOL-Library.AList"
begin

text \<open>
  A model of the GA4GH HTTP client (\<^verbatim>\<open>ga4gh/client.py\<close>): the class \<^verbatim>\<open>HttpClient\<close> with
  its byte counter, its status check, its verbose dump and its three request runners,
  two of which page through results. The client's own state is a record that the
  functions take and return; the network, standard output and the elements handed to the
  caller are a second record, the world. Exceptions are values of a sum type. The loops
  of the two generators are recursive functions with a bound on the number of
  iterations, so that a loop that never ends is told apart from one that does. The
  second part models the simulated variant set that the unit tests of
  \<^verbatim>\<open>tests/unit/test_simulator.py\<close> exercise.
\<close>

section \<open>Python values, objects and exceptions\<close>

text \<open>
  The client of \<^verbatim>\<open>ga4gh/client.py\<close> handles duck-typed protocol objects: it asks a
  response object whether it has a \<^verbatim>\<open>nextPageToken\<close> attribute, reads a list attribute
  by name and assigns \<^verbatim>\<open>pageToken\<close> on the request object. An object is therefore
  modelled by its attribute table, and the values stored there by a small datatype of
  Python values (numbers other than integers are left out: no function of the client
  looks inside a value, except to compare it with \<^verbatim>\<open>None\<close> and to iterate over it).
\<close>

datatype pyval =
    PNone
  | PBool bool
  | PInt int
  | PStr string
  | PList "pyval list"
  | PObject "(string \<times> pyval) list"

type_synonym pyobj = "(string \<times> pyval) list"

text \<open>
  Every exception the modelled code can raise. \<open>RequestFailed u s\<close> is the
  \<^verbatim>\<open>Exception("Url {0} had status_code {1}".format(response.url, response.status_code))\<close>
  of \<^verbatim>\<open>_checkStatus\<close>: it carries the two values the message is built from.
  \<open>ConnectionError\<close> stands for a failure of the transport itself (no response at all).
  \<open>Unmodelled\<close> marks the one place where the model does not follow Python: a
  replacement field of \<^verbatim>\<open>str.format\<close> that uses attribute access, indexing, a
  conversion or a format specification.
\<close>

datatype exn =
    RequestFailed string int
  | ConnectionError
  | ValueError
  | KeyError string
  | IndexError
  | AttributeError string
  | TypeError
  | Unmodelled

definition hasattr :: "pyobj \<Rightarrow> string \<Rightarrow> bool" where
  "hasattr obj name = (map_of obj name \<noteq> None)"

definition getattr :: "pyobj \<Rightarrow> string \<Rightarrow> exn + pyval" where
  "getattr obj name =
     (case map_of obj name of None \<Rightarrow> Inl (AttributeError name) | Some v \<Rightarrow> Inr v)"

definition setattr :: "pyobj \<Rightarrow> string \<Rightarrow> pyval \<Rightarrow> pyobj" where
  "setattr obj name v = AList.update name v obj"

text \<open>
  \<^verbatim>\<open>for extract in value\<close>: a list yields its elements, a string its characters (each
  a string of length one); \<^verbatim>\<open>None\<close>, a number and a protocol object are not iterable.
\<close>

fun py_iter :: "pyval \<Rightarrow> exn + pyval list" where
  "py_iter (PList xs) = Inr xs"
| "py_iter (PStr s) = Inr (map (\<lambda>ch. PStr [ch]) s)"
| "py_iter PNone = Inl TypeError"
| "py_iter (PBool b) = Inl TypeError"
| "py_iter (PInt i) = Inl TypeError"
| "py_iter (PObject obj) = Inl TypeError"

subsection \<open>\<^verbatim>\<open>posixpath.join\<close> and \<^verbatim>\<open>str.format\<close>\<close>

text \<open>
  \<^verbatim>\<open>posixpath.join(a, b)\<close>: an absolute second component replaces the first; otherwise
  the two are put together with exactly one separator between them, none when the first
  is empty or already ends with one.
\<close>

definition posixpath_join :: "string \<Rightarrow> string \<Rightarrow> string" where
  "posixpath_join a b =
     (if b \<noteq> [] \<and> hd b = CHR ''/'' then b
      else if a = [] \<or> last a = CHR ''/'' then a @ b
      else a @ ''/'' @ b)"

text \<open>
  \<^verbatim>\<open>template.format(**kwargs)\<close> with keyword arguments only, as the client calls it.
  \<^verbatim>\<open>{{\<close> and \<^verbatim>\<open>}}\<close> are escapes; \<^verbatim>\<open>{name}\<close> is replaced by the argument of that
  name (\<^verbatim>\<open>KeyError\<close> when there is none, \<^verbatim>\<open>IndexError\<close> when the name is empty or a
  number, since there are no positional arguments); a lone brace is a \<^verbatim>\<open>ValueError\<close>.
  \<open>format_field\<close> reads a replacement field up to its closing brace, the characters
  read so far being kept in reverse.
\<close>

definition field_value :: "(string \<rightharpoonup> string) \<Rightarrow> string \<Rightarrow> exn + string" where
  "field_value kwargs name =
     (if \<exists>ch \<in> set name. ch \<in> set ''.[!:{'' then Inl Unmodelled
      else if \<forall>ch \<in> set name. ch \<in> set ''0123456789'' then Inl IndexError
      else (case kwargs name of None \<Rightarrow> Inl (KeyError name) | Some v \<Rightarrow> Inr v))"

fun py_format :: "(string \<rightharpoonup> string) \<Rightarrow> string \<Rightarrow> exn + string"
  and format_field :: "(string \<rightharpoonup> string) \<Rightarrow> string \<Rightarrow> string \<Rightarrow> exn + string" where
  "py_format kwargs [] = Inr []"
| "py_format kwargs (ch # rest) =
     (if ch = CHR ''{'' then
        (case rest of
           [] \<Rightarrow> Inl ValueError
         | ch' # rest' \<Rightarrow>
             if ch' = CHR ''{'' then map_sum id ((#) CHR ''{'') (py_format kwargs rest')
             else format_field kwargs [] rest)
      else if ch = CHR ''}'' then
        (case rest of
           [] \<Rightarrow> Inl ValueError
         | ch' # rest' \<Rightarrow>
             if ch' = CHR ''}'' then map_sum id ((#) CHR ''}'') (py_format kwargs rest')
             else Inl ValueError)
      else map_sum id ((#) ch) (py_format kwargs rest))"
| "format_field kwargs acc [] = Inl ValueError"
| "format_field kwargs acc (ch # rest) =
     (if ch = CHR ''}'' then
        (case field_value kwargs (rev acc) of
           Inl e \<Rightarrow> Inl e
         | Inr v \<Rightarrow> map_sum id ((@) v) (py_format kwargs rest))
      else format_field kwargs (ch # acc) rest)"

section \<open>The HTTP transport\<close>

text \<open>
  \<^verbatim>\<open>requests.request(method, url, params=..., data=..., headers=...)\<close> is the only
  contact with the network. What is sent is recorded; what comes back is not decided by
  the client, so the answers are a parameter of the model: \<open>server E i\<close> is the answer
  to the \<open>i\<close>-th request issued (counting from zero), either a response or a failure of
  the transport. Any server, whatever its state, gives one such sequence along a run.
  Of a response the client reads \<^verbatim>\<open>status_code\<close>, \<^verbatim>\<open>text\<close> (the decoded body, a
  sequence of characters) and \<^verbatim>\<open>url\<close>.
\<close>

record http_request =
  req_method :: string
  req_url :: string
  req_params :: "string \<rightharpoonup> pyval"
  req_data :: "string option"
  req_headers :: "string \<rightharpoonup> string"

record http_response =
  resp_status_code :: int
  resp_text :: string
  resp_url :: string

text \<open>
  What an observer of a run sees, in order: an HTTP request going out, or the generator
  handing an element to its caller.
\<close>

datatype event = Request http_request | Yield pyval

text \<open>
  The world outside the client object: how many requests have been served, the events
  so far, and the lines printed on standard output.
\<close>

record world =
  served :: nat
  events :: "event list"
  stdout :: "string list"

text \<open>
  The code of the repository that is not in the sources, and the standard library, are
  parameters: \<open>json_pp\<close> is \<^verbatim>\<open>json.dumps(json.loads(s), sort_keys=True, indent=4)\<close>
  (it fails when \<^verbatim>\<open>json.loads\<close> does), \<open>toJsonString\<close> and \<open>toJsonDict\<close> are the
  two serialisation methods of a \<^verbatim>\<open>ga4gh.protocol\<close> request object. A protocol
  response class is given by its \<^verbatim>\<open>fromJsonString\<close>.
\<close>

record env =
  server :: "nat \<Rightarrow> exn + http_response"
  json_pp :: "string \<Rightarrow> exn + string"
  toJsonString :: "pyobj \<Rightarrow> string"
  toJsonDict :: "pyobj \<Rightarrow> (string \<rightharpoonup> pyval)"

type_synonym protocolResponseClass = "string \<Rightarrow> exn + pyobj"

definition requests_request ::
  "env \<Rightarrow> world \<Rightarrow> http_request \<Rightarrow> (exn + http_response) \<times> world" where
  "requests_request E w rq =
     (server E (served w),
      w\<lparr>served := Suc (served w), events := events w @ [Request rq]\<rparr>)"

text \<open>\<^verbatim>\<open>requests.codes.ok\<close>\<close>

definition codes_ok :: int where
  "codes_ok = 200"

section \<open>\<^verbatim>\<open>HttpClient\<close>\<close>

record HttpClient =
  urlPrefix :: string
  debugLevel :: int
  bytesRead :: int
  workarounds :: "string list"
  key :: pyval

definition HttpClient_init :: "string \<Rightarrow> int \<Rightarrow> string list \<Rightarrow> pyval \<Rightarrow> HttpClient" where
  "HttpClient_init urlPrefix' debugLevel' workarounds' key' =
     \<lparr>urlPrefix = urlPrefix', debugLevel = debugLevel', bytesRead = 0,
      workarounds = workarounds', key = key'\<rparr>"

definition workaroundGoogle :: string where
  "workaroundGoogle = ''google''"

definition getBytesRead :: "HttpClient \<Rightarrow> int" where
  "getBytesRead c = bytesRead c"

definition usingWorkaroundsFor :: "HttpClient \<Rightarrow> string \<Rightarrow> bool" where
  "usingWorkaroundsFor c workaround = (workaround \<in> set (workarounds c))"

definition getAuth :: "HttpClient \<Rightarrow> (string \<rightharpoonup> pyval)" where
  "getAuth c =
     (if usingWorkaroundsFor c workaroundGoogle then [''key'' \<mapsto> key c] else Map.empty)"

text \<open>
  \<^verbatim>\<open>_debugResponse\<close>: the header line is printed before \<^verbatim>\<open>json.loads\<close> runs, so
  it is on standard output even when the body is not JSON and the call raises.
\<close>

definition debugResponse :: "env \<Rightarrow> HttpClient \<Rightarrow> world \<Rightarrow> string \<Rightarrow> (exn + unit) \<times> world" where
  "debugResponse E c w jsonString =
     (if debugLevel c > 1 then
        (case json_pp E jsonString of
           Inl e \<Rightarrow> (Inl e, w\<lparr>stdout := stdout w @ [''json response:'']\<rparr>)
         | Inr pp \<Rightarrow> (Inr (), w\<lparr>stdout := stdout w @ [''json response:'', pp]\<rparr>))
      else (Inr (), w))"

definition checkStatus :: "world \<Rightarrow> http_response \<Rightarrow> (exn + unit) \<times> world" where
  "checkStatus w response =
     (if resp_status_code response \<noteq> codes_ok then
        (Inl (RequestFailed (resp_url response) (resp_status_code response)),
         w\<lparr>stdout := stdout w @ [resp_text response]\<rparr>)
      else (Inr (), w))"

definition updateBytesRead :: "HttpClient \<Rightarrow> string \<Rightarrow> HttpClient" where
  "updateBytesRead c jsonString = c\<lparr>bytesRead := bytesRead c + int (length jsonString)\<rparr>"

definition deserializeResponse ::
  "env \<Rightarrow> HttpClient \<Rightarrow> world \<Rightarrow> http_response \<Rightarrow> protocolResponseClass
     \<Rightarrow> (exn + pyobj) \<times> HttpClient \<times> world" where
  "deserializeResponse E c w response fromJsonString =
     (let jsonResponseString = resp_text response;
          c1 = updateBytesRead c jsonResponseString
      in case debugResponse E c1 w jsonResponseString of
           (Inl e, w1) \<Rightarrow> (Inl e, c1, w1)
         | (Inr u, w1) \<Rightarrow> (fromJsonString jsonResponseString, c1, w1))"

text \<open>
  \<^verbatim>\<open>_updateNotDone\<close> returns the flag and, since it assigns \<^verbatim>\<open>pageToken\<close> on the
  caller's request object, the request object as it is afterwards. Looking the attribute
  up in the table is both the \<^verbatim>\<open>hasattr\<close> test (\<open>None\<close>: there is no such attribute)
  and the two reads of \<^verbatim>\<open>responseObject.nextPageToken\<close>.
\<close>

definition updateNotDone :: "pyobj \<Rightarrow> pyobj \<Rightarrow> bool \<times> pyobj" where
  "updateNotDone responseObject protocolRequest =
     (case map_of responseObject ''nextPageToken'' of
        Some nextPageToken \<Rightarrow>
          (nextPageToken \<noteq> PNone, setattr protocolRequest ''pageToken'' nextPageToken)
      | None \<Rightarrow> (False, protocolRequest))"

definition doRequest ::
  "env \<Rightarrow> HttpClient \<Rightarrow> world \<Rightarrow> string \<Rightarrow> string \<Rightarrow> protocolResponseClass
     \<Rightarrow> (string \<rightharpoonup> pyval) \<Rightarrow> string option \<Rightarrow> (exn + pyobj) \<times> HttpClient \<times> world" where
  "doRequest E c w httpMethod url fromJsonString httpParams httpData =
     (let headers = (if httpData \<noteq> None then [''Content-type'' \<mapsto> ''application/json'']
                     else Map.empty);
          params = getAuth c ++ httpParams
      in case requests_request E w
                \<lparr>req_method = httpMethod, req_url = url, req_params = params,
                 req_data = httpData, req_headers = headers\<rparr> of
           (Inl e, w1) \<Rightarrow> (Inl e, c, w1)
         | (Inr response, w1) \<Rightarrow>
             (case checkStatus w1 response of
                (Inl e, w2) \<Rightarrow> (Inl e, c, w2)
              | (Inr u, w2) \<Rightarrow> deserializeResponse E c w2 response fromJsonString))"

text \<open>
  The two generators are run to their end, as a caller that consumes every element
  does; the elements handed over are \<open>Yield\<close> events in the world. The first argument
  bounds the number of loop iterations: \<open>None\<close> means the loop was still running when
  the bound was reached. A run that ends gives the exception raised, if any, together
  with the client, the request object and the world as they are then.
\<close>

type_synonym run = "exn option \<times> HttpClient \<times> pyobj \<times> world"

fun searchLoop ::
  "nat \<Rightarrow> env \<Rightarrow> string \<Rightarrow> protocolResponseClass \<Rightarrow> string
     \<Rightarrow> HttpClient \<Rightarrow> pyobj \<Rightarrow> world \<Rightarrow> run option" where
  "searchLoop 0 E fullUrl fromJsonString listAttr c protocolRequest w = None"
| "searchLoop (Suc n) E fullUrl fromJsonString listAttr c protocolRequest w =
     (let data = toJsonString E protocolRequest
      in case doRequest E c w ''POST'' fullUrl fromJsonString Map.empty (Some data) of
           (Inl e, c1, w1) \<Rightarrow> Some (Some e, c1, protocolRequest, w1)
         | (Inr responseObject, c1, w1) \<Rightarrow>
             (case getattr responseObject listAttr of
                Inl e \<Rightarrow> Some (Some e, c1, protocolRequest, w1)
              | Inr v \<Rightarrow>
                  (case py_iter v of
                     Inl e \<Rightarrow> Some (Some e, c1, protocolRequest, w1)
                   | Inr extracts \<Rightarrow>
                       (let w2 = w1\<lparr>events := events w1 @ map Yield extracts\<rparr>
                        in case updateNotDone responseObject protocolRequest of
                             (notDone, protocolRequest') \<Rightarrow>
                               if notDone
                               then searchLoop n E fullUrl fromJsonString listAttr
                                      c1 protocolRequest' w2
                               else Some (None, c1, protocolRequest', w2)))))"

definition runSearchRequest ::
  "nat \<Rightarrow> env \<Rightarrow> HttpClient \<Rightarrow> world \<Rightarrow> pyobj \<Rightarrow> string \<Rightarrow> protocolResponseClass
     \<Rightarrow> string \<Rightarrow> run option" where
  "runSearchRequest n E c w protocolRequest objectName fromJsonString listAttr =
     searchLoop n E (posixpath_join (urlPrefix c) (objectName @ ''/search''))
       fromJsonString listAttr c protocolRequest w"

fun listLoop ::
  "nat \<Rightarrow> env \<Rightarrow> string \<Rightarrow> protocolResponseClass
     \<Rightarrow> HttpClient \<Rightarrow> pyobj \<Rightarrow> world \<Rightarrow> run option" where
  "listLoop 0 E fullUrl fromJsonString c protocolRequest w = None"
| "listLoop (Suc n) E fullUrl fromJsonString c protocolRequest w =
     (let requestDict = toJsonDict E protocolRequest
      in case doRequest E c w ''GET'' fullUrl fromJsonString requestDict None of
           (Inl e, c1, w1) \<Rightarrow> Some (Some e, c1, protocolRequest, w1)
         | (Inr responseObject, c1, w1) \<Rightarrow>
             (let w2 = w1\<lparr>events := events w1 @ [Yield (PObject responseObject)]\<rparr>
              in case updateNotDone responseObject protocolRequest of
                   (notDone, protocolRequest') \<Rightarrow>
                     if notDone
                     then listLoop n E fullUrl fromJsonString c1 protocolRequest' w2
                     else Some (None, c1, protocolRequest', w2)))"

definition runListRequest ::
  "nat \<Rightarrow> env \<Rightarrow> HttpClient \<Rightarrow> world \<Rightarrow> pyobj \<Rightarrow> string \<Rightarrow> protocolResponseClass
     \<Rightarrow> string \<Rightarrow> run option" where
  "runListRequest n E c w protocolRequest url fromJsonString id' =
     (case py_format [''id'' \<mapsto> id'] (posixpath_join (urlPrefix c) url) of
        Inl e \<Rightarrow> Some (Some e, c, protocolRequest, w)
      | Inr fullUrl \<Rightarrow> listLoop n E fullUrl fromJsonString c protocolRequest w)"

definition runGetRequest ::
  "env \<Rightarrow> HttpClient \<Rightarrow> world \<Rightarrow> string \<Rightarrow> protocolResponseClass \<Rightarrow> string
     \<Rightarrow> (exn + pyobj) \<times> HttpClient \<times> world" where
  "runGetRequest E c w objectName fromJsonString id' =
     (let url = ''{objectName}/{id}''
      in case py_format [''id'' \<mapsto> id', ''objectName'' \<mapsto> objectName]
                (posixpath_join (urlPrefix c) url) of
           Inl e \<Rightarrow> (Inl e, c, w)
         | Inr fullUrl \<Rightarrow> doRequest E c w ''GET'' fullUrl fromJsonString Map.empty None)"

section \<open>Describing a run from the server's answers\<close>

text \<open>
  \<open>delivered E c cls i\<close> is what \<^verbatim>\<open>_doRequest\<close> hands back when its request is the
  \<open>i\<close>-th one served: the failure of the transport, of the status check, of the
  verbose dump or of the parser, or else the response object. (Lemma \<open>doRequest_fst\<close>
  proves that this is the first component of \<open>doRequest\<close>.)
\<close>

definition delivered :: "env \<Rightarrow> HttpClient \<Rightarrow> protocolResponseClass \<Rightarrow> nat \<Rightarrow> exn + pyobj" where
  "delivered E c fromJsonString i =
     (case server E i of
        Inl e \<Rightarrow> Inl e
      | Inr response \<Rightarrow>
          if resp_status_code response \<noteq> codes_ok
          then Inl (RequestFailed (resp_url response) (resp_status_code response))
          else if debugLevel c > 1
          then (case json_pp E (resp_text response) of
                  Inl e \<Rightarrow> Inl e
                | Inr pp \<Rightarrow> fromJsonString (resp_text response))
          else fromJsonString (resp_text response))"

text \<open>
  A page of a search, as the loop body sees it: the elements of the list attribute and
  the continuation token (\<open>None\<close>: the response object has no \<^verbatim>\<open>nextPageToken\<close>
  attribute; \<open>Some PNone\<close>: it has one, and it is \<^verbatim>\<open>None\<close>).
\<close>

definition search_page ::
  "env \<Rightarrow> HttpClient \<Rightarrow> protocolResponseClass \<Rightarrow> string \<Rightarrow> nat
     \<Rightarrow> exn + (pyval list \<times> pyval option)" where
  "search_page E c fromJsonString listAttr i =
     (case delivered E c fromJsonString i of
        Inl e \<Rightarrow> Inl e
      | Inr responseObject \<Rightarrow>
          (case getattr responseObject listAttr of
             Inl e \<Rightarrow> Inl e
           | Inr v \<Rightarrow>
               (case py_iter v of
                  Inl e \<Rightarrow> Inl e
                | Inr extracts \<Rightarrow> Inr (extracts, map_of responseObject ''nextPageToken''))))"

definition list_page ::
  "env \<Rightarrow> HttpClient \<Rightarrow> protocolResponseClass \<Rightarrow> nat \<Rightarrow> exn + (pyobj \<times> pyval option)" where
  "list_page E c fromJsonString i =
     (case delivered E c fromJsonString i of
        Inl e \<Rightarrow> Inl e
      | Inr responseObject \<Rightarrow> Inr (responseObject, map_of responseObject ''nextPageToken''))"

text \<open>The continuation token is absent or null.\<close>

definition last_token :: "pyval option \<Rightarrow> bool" where
  "last_token tok = (tok = None \<or> tok = Some PNone)"

text \<open>The iteration served by answer \<open>i\<close> is the last one: it raises, or it finds no token.\<close>

definition search_stops ::
  "env \<Rightarrow> HttpClient \<Rightarrow> protocolResponseClass \<Rightarrow> string \<Rightarrow> nat \<Rightarrow> bool" where
  "search_stops E c fromJsonString listAttr i =
     (case search_page E c fromJsonString listAttr i of
        Inl e \<Rightarrow> True
      | Inr (extracts, tok) \<Rightarrow> last_token tok)"

definition list_stops :: "env \<Rightarrow> HttpClient \<Rightarrow> protocolResponseClass \<Rightarrow> nat \<Rightarrow> bool" where
  "list_stops E c fromJsonString i =
     (case list_page E c fromJsonString i of
        Inl e \<Rightarrow> True
      | Inr (responseObject, tok) \<Rightarrow> last_token tok)"

text \<open>
  The server's \<open>i\<close>-th answer is a response whose body, read by the protocol class,
  has an absent or null continuation token; and: some answer from the \<open>k\<close>-th on is.
\<close>

definition token_absent_or_null :: "env \<Rightarrow> protocolResponseClass \<Rightarrow> nat \<Rightarrow> bool" where
  "token_absent_or_null E fromJsonString i =
     (case server E i of
        Inl e \<Rightarrow> False
      | Inr response \<Rightarrow>
          (case fromJsonString (resp_text response) of
             Inl e \<Rightarrow> False
           | Inr responseObject \<Rightarrow> last_token (map_of responseObject ''nextPageToken'')))"

definition eventually_no_token :: "env \<Rightarrow> protocolResponseClass \<Rightarrow> nat \<Rightarrow> bool" where
  "eventually_no_token E fromJsonString k = (\<exists>i. k \<le> i \<and> token_absent_or_null E fromJsonString i)"

text \<open>The request object after the tokens of the first \<open>i\<close> pages have been assigned to it.\<close>

fun carried :: "pyobj \<Rightarrow> (nat \<Rightarrow> pyval option) \<Rightarrow> nat \<Rightarrow> pyobj" where
  "carried protocolRequest tok 0 = protocolRequest"
| "carried protocolRequest tok (Suc i) =
     (case tok i of
        None \<Rightarrow> carried protocolRequest tok i
      | Some t \<Rightarrow> setattr (carried protocolRequest tok i) ''pageToken'' t)"

text \<open>
  The requests the two runners are expected to send to their URL: a \<^verbatim>\<open>POST\<close> with the
  serialised request object as its body, and a \<^verbatim>\<open>GET\<close> with the request object as
  query parameters; both with the authentication parameters of the client.
\<close>

definition search_request :: "env \<Rightarrow> HttpClient \<Rightarrow> string \<Rightarrow> pyobj \<Rightarrow> http_request" where
  "search_request E c fullUrl protocolRequest =
     \<lparr>req_method = ''POST'',
      req_url = fullUrl,
      req_params = getAuth c,
      req_data = Some (toJsonString E protocolRequest),
      req_headers = [''Content-type'' \<mapsto> ''application/json'']\<rparr>"

definition list_request :: "env \<Rightarrow> HttpClient \<Rightarrow> string \<Rightarrow> pyobj \<Rightarrow> http_request" where
  "list_request E c fullUrl protocolRequest =
     \<lparr>req_method = ''GET'',
      req_url = fullUrl,
      req_params = getAuth c ++ toJsonDict E protocolRequest,
      req_data = None,
      req_headers = Map.empty\<rparr>"

definition yielded :: "event list \<Rightarrow> pyval list" where
  "yielded evs = concat (map (\<lambda>ev. case ev of Yield v \<Rightarrow> [v] | Request rq \<Rightarrow> []) evs)"

definition is_2xx :: "int \<Rightarrow> bool" where
  "is_2xx status = (200 \<le> status \<and> status < 300)"

section \<open>The simulated variant set\<close>

text \<open>
  Modelled from the spec: the simulated variant set generator
  (\<^verbatim>\<open>ga4gh.datamodel.variants.SimulatedVariantSet\<close>) is not among the sources; only its
  unit tests are. The spec says: given a seed, a call count and a variant density of at
  least 1, the generator produces one synthetic variant record per base position of the
  requested half-open range; the identifier of a record is composed of the identifier
  of the variant set, the reference name and the start position; reference and alternate
  bases are drawn from a fixed alphabet of four symbols; a record has exactly as many
  calls as the configured call count; the creation and update timestamps of a record
  are equal to each other and may differ from run to run. The tests add that a record
  covers one position (its end is its start plus one) and that the generator itself has
  a creation time equal to its update time.

  What the pseudo-random generator draws is a parameter: \<open>draw G seed position k\<close> is
  the \<open>k\<close>-th number drawn for a position under a seed. For a density below 1 the spec
  does not say which positions get a record; that choice is the parameter \<open>selects\<close>.
  The clock is read once, when the generator is constructed (\<open>now\<close>).
\<close>

record variant =
  variant_id :: "string \<times> string \<times> int"
  variantSetId :: string
  referenceName :: string
  variant_start :: int
  variant_end :: int
  referenceBases :: string
  alternateBases :: "string list"
  calls :: "nat list"
  created :: int
  updated :: int

record prng =
  draw :: "int \<Rightarrow> int \<Rightarrow> nat \<Rightarrow> nat"
  selects :: "int \<Rightarrow> rat \<Rightarrow> int \<Rightarrow> bool"

record SimulatedVariantSet =
  variantSet_id :: string
  randomSeed :: int
  numCalls :: nat
  variantDensity :: rat
  creationTime :: int
  updatedTime :: int

text \<open>
  Modelled from the spec: the constructor of \<^verbatim>\<open>SimulatedVariantSet\<close> (missing from the
  sources) stores its parameters and reads the clock once for both timestamps.
\<close>

definition SimulatedVariantSet_init ::
  "string \<Rightarrow> int \<Rightarrow> nat \<Rightarrow> rat \<Rightarrow> int \<Rightarrow> SimulatedVariantSet" where
  "SimulatedVariantSet_init localId randomSeed' numCalls' variantDensity' now =
     \<lparr>variantSet_id = localId, randomSeed = randomSeed', numCalls = numCalls',
      variantDensity = variantDensity', creationTime = now, updatedTime = now\<rparr>"

text \<open>Modelled from the spec: the fixed alphabet of four symbols (named in the tests).\<close>

definition bases :: "string list" where
  "bases = [''A'', ''C'', ''G'', ''T'']"

text \<open>
  Modelled from the spec: the record generated for one position (the method is missing
  from the sources). Identifier, bases, calls and timestamps are as the spec describes
  them; the end of the record is as the unit test checks it.
\<close>

definition generateVariant :: "prng \<Rightarrow> SimulatedVariantSet \<Rightarrow> string \<Rightarrow> int \<Rightarrow> variant" where
  "generateVariant G vs referenceName' position =
     \<lparr>variant_id = (variantSet_id vs, referenceName', position),
      variantSetId = variantSet_id vs,
      referenceName = referenceName',
      variant_start = position,
      variant_end = position + 1,
      referenceBases = bases ! (draw G (randomSeed vs) position 0 mod 4),
      alternateBases = [bases ! (draw G (randomSeed vs) position 1 mod 4)],
      calls = map (\<lambda>k. draw G (randomSeed vs) position (2 + k)) [0..<numCalls vs],
      created = creationTime vs,
      updated = updatedTime vs\<rparr>"

text \<open>
  Modelled from the spec: \<^verbatim>\<open>getVariants\<close> (missing from the sources) over the half-open
  range from \<open>startPosition\<close> to \<open>endPosition\<close>: one record per position when the
  density is at least 1, and otherwise one per position that \<open>selects\<close> picks. The two
  further arguments of the method, a variant name and call set identifiers, are unused in
  the tests and left out.
\<close>

definition getVariants ::
  "prng \<Rightarrow> SimulatedVariantSet \<Rightarrow> string \<Rightarrow> int \<Rightarrow> int \<Rightarrow> variant list" where
  "getVariants G vs referenceName' startPosition endPosition =
     map (generateVariant G vs referenceName')
       (filter (\<lambda>position. 1 \<le> variantDensity vs
                             \<or> selects G (randomSeed vs) (variantDensity vs) position)
          [startPosition..endPosition - 1])"

text \<open>
  \<^verbatim>\<open>_assertEqualVariantLists\<close> of the unit tests sets the two time-dependent fields of
  every record to 0 before it compares the lists.
\<close>

definition without_timestamps :: "variant \<Rightarrow> variant" where
  "without_timestamps v = v\<lparr>created := 0, updated := 0\<rparr>"

text \<open>A generator of pseudo-random numbers to evaluate the model on.\<close>

definition demo_prng :: prng where
  "demo_prng =
     \<lparr>draw = (\<lambda>seed position k. nat (\<bar>seed + 3 * position\<bar>) + 7 * k),
      selects = (\<lambda>seed density position. even position)\<rparr>"

section \<open>Concrete servers and clients\<close>

text \<open>
  A small protocol class and server on which the theorems below are evaluated. The class
  knows three bodies: a first page of two elements with the token \<^verbatim>\<open>"abc"\<close>, a second page
  of one element with a null token, and a page that has no token attribute at all. The
  server answers the first request with the first page, the second with the second page,
  and every later one with status 404.
\<close>

definition demo_class :: protocolResponseClass where
  "demo_class s =
     (if s = ''page1''
      then Inr [(''variants'', PList [PInt 1, PInt 2]), (''nextPageToken'', PStr ''abc'')]
      else if s = ''page2''
      then Inr [(''variants'', PList [PInt 3]), (''nextPageToken'', PNone)]
      else if s = ''single''
      then Inr [(''variants'', PList [PInt 3])]
      else Inl ValueError)"

definition demo_server :: "nat \<Rightarrow> exn + http_response" where
  "demo_server i =
     (if i = 0
      then Inr \<lparr>resp_status_code = 200, resp_text = ''page1'',
                resp_url = ''http://h/v0/variants/search''\<rparr>
      else if i = 1
      then Inr \<lparr>resp_status_code = 200, resp_text = ''page2'',
                resp_url = ''http://h/v0/variants/search''\<rparr>
      else Inr \<lparr>resp_status_code = 404, resp_text = ''Not Found'',
                resp_url = ''http://h/v0/variants/search''\<rparr>)"

definition demo_env :: env where
  "demo_env =
     \<lparr>server = demo_server,
      json_pp = (\<lambda>s. case demo_class s of Inl e \<Rightarrow> Inl e | Inr obj \<Rightarrow> Inr s),
      toJsonString = (\<lambda>rq. case map_of rq ''pageToken'' of
                              Some (PStr t) \<Rightarrow> ''pageToken='' @ t
                            | Some v \<Rightarrow> ''pageToken=null''
                            | None \<Rightarrow> ''first''),
      toJsonDict = map_of\<rparr>"

text \<open>The server that gives the same response to every request.\<close>

definition always :: "http_response \<Rightarrow> env" where
  "always response = demo_env\<lparr>server := (\<lambda>i. Inr response)\<rparr>"

definition demo_client :: HttpClient where
  "demo_client = HttpClient_init ''http://h/v0'' 0 [] PNone"

definition world0 :: world where
  "world0 = \<lparr>served = 0, events = [], stdout = []\<rparr>"

text \<open>
  A server that answers the first request with the first page and every later one with
  status 503.
\<close>

definition flaky_server :: "nat \<Rightarrow> exn + http_response" where
  "flaky_server i =
     (if i = 0
      then Inr \<lparr>resp_status_code = 200, resp_text = ''page1'',
                resp_url = ''http://h/v0/variants/search''\<rparr>
      else Inr \<lparr>resp_status_code = 503, resp_text = ''Service Unavailable'',
                resp_url = ''http://h/v0/variants/search''\<rparr>)"

definition flaky_env :: env where
  "flaky_env = demo_env\<lparr>server := flaky_server\<rparr>"


text \<open>
  The bytes of a text on the wire when the response is encoded in UTF-8, the encoding of
  JSON. A character of the model is a code point below 256: one below 128 is one byte, any
  other is two bytes.
\<close>

definition utf8_encode_char :: "char \<Rightarrow> char list" where
  "utf8_encode_char ch =
     (let n = (of_char ch :: nat)
      in if n < 128 then [ch] else [char_of (192 + n div 64), char_of (128 + n mod 64)])"

definition utf8_encode :: "string \<Rightarrow> char list" where
  "utf8_encode s = concat (map utf8_encode_char s)"

text \<open>A protocol class that accepts every body.\<close>

definition any_class :: protocolResponseClass where
  "any_class s = Inr [(''text'', PStr s)]"

section \<open>What one request does\<close>

lemma hasattr_updateNotDone:
  "fst (updateNotDone responseObject protocolRequest) =
     (hasattr responseObject ''nextPageToken''
        \<and> map_of responseObject ''nextPageToken'' \<noteq> Some PNone)"
  by (simp add: updateNotDone_def hasattr_def split: option.split)

lemma doRequest_fst:
  "fst (doRequest E c w m u cls ps d) = delivered E c cls (served w)"
  by (simp add: doRequest_def requests_request_def checkStatus_def deserializeResponse_def
        debugResponse_def updateBytesRead_def delivered_def Let_def split: sum.split)

lemma doRequest_served:
  "served (snd (snd (doRequest E c w m u cls ps d))) = Suc (served w)"
  by (simp add: doRequest_def requests_request_def checkStatus_def deserializeResponse_def
        debugResponse_def updateBytesRead_def Let_def split: sum.split)

lemma doRequest_client:
  "fst (snd (doRequest E c w m u cls ps d)) =
     c\<lparr>bytesRead := bytesRead (fst (snd (doRequest E c w m u cls ps d)))\<rparr>"
  by (simp add: doRequest_def requests_request_def checkStatus_def deserializeResponse_def
        debugResponse_def updateBytesRead_def Let_def split: sum.split)

lemma doRequest_client_ex:
  "\<exists>b. fst (snd (doRequest E c w m u cls ps d)) = c\<lparr>bytesRead := b\<rparr>"
  using doRequest_client by blast

lemma doRequest_events:
  "events (snd (snd (doRequest E c w m u cls ps d))) =
     events w @ [Request \<lparr>req_method = m, req_url = u, req_params = getAuth c ++ ps,
                          req_data = d,
                          req_headers = (if d \<noteq> None then [''Content-type'' \<mapsto> ''application/json'']
                                         else Map.empty)\<rparr>]"
  by (simp add: doRequest_def requests_request_def checkStatus_def deserializeResponse_def
        debugResponse_def updateBytesRead_def Let_def split: sum.split)


lemma delivered_bytesRead [simp]:
  "delivered E (c\<lparr>bytesRead := b\<rparr>) cls i = delivered E c cls i"
  by (simp add: delivered_def split: sum.split)

lemma getAuth_bytesRead [simp]: "getAuth (c\<lparr>bytesRead := b\<rparr>) = getAuth c"
  by (simp add: getAuth_def usingWorkaroundsFor_def)

lemma search_page_bytesRead [simp]:
  "search_page E (c\<lparr>bytesRead := b\<rparr>) cls la i = search_page E c cls la i"
  by (simp add: search_page_def)

lemma list_page_bytesRead [simp]:
  "list_page E (c\<lparr>bytesRead := b\<rparr>) cls i = list_page E c cls i"
  by (simp add: list_page_def)

lemma search_request_bytesRead [simp]:
  "search_request E (c\<lparr>bytesRead := b\<rparr>) u rq = search_request E c u rq"
  by (simp add: search_request_def)

lemma list_request_bytesRead [simp]:
  "list_request E (c\<lparr>bytesRead := b\<rparr>) u rq = list_request E c u rq"
  by (simp add: list_request_def)

text \<open>
  C10. When a response passes the status check and the protocol class then fails to
  read its body, the request fails, and the byte counter has all the same grown by the
  length of that body: \<^verbatim>\<open>_updateBytesRead\<close> runs before the body is parsed.
\<close>

theorem bytes_counted_before_parse_failure:
  assumes "server E (served w) = Inr response"
    and "resp_status_code response = codes_ok"
    and "fromJsonString (resp_text response) = Inl e"
  shows "\<exists>e' c' w'.
           doRequest E c w httpMethod url fromJsonString httpParams httpData = (Inl e', c', w')
           \<and> getBytesRead c' = getBytesRead c + int (length (resp_text response))"
  using assms
  by (simp add: doRequest_def requests_request_def checkStatus_def deserializeResponse_def
        debugResponse_def updateBytesRead_def getBytesRead_def Let_def split: sum.split)

theorem bytes_counted_before_parse_failure_witness:
  "\<exists>e' c' w'.
     doRequest (always \<lparr>resp_status_code = 200, resp_text = ''<html>'', resp_url = ''u''\<rparr>)
       demo_client world0 ''GET'' ''u'' demo_class Map.empty None = (Inl e', c', w')
     \<and> getBytesRead c' = 6"
proof -
  let ?r = "\<lparr>resp_status_code = 200, resp_text = ''<html>'', resp_url = ''u''\<rparr>"
  have h1: "server (always ?r) (served world0) = Inr ?r"
    by (simp add: always_def)
  have h2: "resp_status_code ?r = codes_ok"
    by (simp add: codes_ok_def)
  have h3: "demo_class (resp_text ?r) = Inl ValueError"
    by (simp add: demo_class_def)
  show ?thesis
    using bytes_counted_before_parse_failure
            [where fromJsonString = demo_class and c = demo_client and httpMethod = "''GET''"
               and url = "''u''" and httpParams = Map.empty and httpData = None,
             OF h1 h2 h3]
    by (simp add: getBytesRead_def demo_client_def HttpClient_init_def)
qed

section \<open>The search loop\<close>

text \<open>One iteration of the loop of \<^verbatim>\<open>runSearchRequest\<close>, read off the page it is served.\<close>

lemma searchLoop_Suc:
  "searchLoop (Suc n) E u cls la c rq w =
     (let r = doRequest E c w ''POST'' u cls Map.empty (Some (toJsonString E rq));
          c1 = fst (snd r); w1 = snd (snd r)
      in case search_page E c cls la (served w) of
           Inl e \<Rightarrow> Some (Some e, c1, rq, w1)
         | Inr (xs, tok) \<Rightarrow>
             (case tok of
                None \<Rightarrow> Some (None, c1, rq, w1\<lparr>events := events w1 @ map Yield xs\<rparr>)
              | Some t \<Rightarrow>
                  if t = PNone
                  then Some (None, c1, setattr rq ''pageToken'' t,
                             w1\<lparr>events := events w1 @ map Yield xs\<rparr>)
                  else searchLoop n E u cls la c1 (setattr rq ''pageToken'' t)
                         (w1\<lparr>events := events w1 @ map Yield xs\<rparr>)))"
proof (cases "doRequest E c w ''POST'' u cls Map.empty (Some (toJsonString E rq))")
  case (fields res c1 w1)
  have d: "delivered E c cls (served w) = res"
    using doRequest_fst [of E c w "''POST''" u cls Map.empty "Some (toJsonString E rq)"] fields
    by simp
  show ?thesis
    by (simp add: fields search_page_def d updateNotDone_def Let_def
          split: sum.split option.split)
qed

declare searchLoop.simps(2) [simp del]

text \<open>
  \<open>n\<close> pages that each carry a token take the loop through \<open>n\<close> iterations: it sends
  one request per page, the token of the page before in the request object, and hands
  over the elements of a page before it sends the next request.
\<close>

lemma searchLoop_pages:
  assumes pages: "\<And>i. i < n \<Longrightarrow>
            search_page E c cls la (served w + i) = Inr (xs i, tok i) \<and> \<not> last_token (tok i)"
  shows "\<exists>b w'. searchLoop (n + f) E u cls la c rq w
                   = searchLoop f E u cls la (c\<lparr>bytesRead := b\<rparr>) (carried rq tok n) w'
           \<and> served w' = served w + n
           \<and> events w' = events w @
                concat (map (\<lambda>i. Request (search_request E c u (carried rq tok i))
                                  # map Yield (xs i)) [0..<n])"
  using pages
proof (induction n arbitrary: f)
  case 0
  show ?case
    by (rule exI [of _ "bytesRead c"], rule exI [of _ w]) simp
next
  case (Suc n)
  have "\<And>i. i < n \<Longrightarrow>
          search_page E c cls la (served w + i) = Inr (xs i, tok i) \<and> \<not> last_token (tok i)"
    using Suc.prems by simp
  from Suc.IH [OF this, of "Suc f"] obtain b w' where
    run: "searchLoop (n + Suc f) E u cls la c rq w
            = searchLoop (Suc f) E u cls la (c\<lparr>bytesRead := b\<rparr>) (carried rq tok n) w'"
    and sv: "served w' = served w + n"
    and ev: "events w' = events w @
               concat (map (\<lambda>i. Request (search_request E c u (carried rq tok i))
                                 # map Yield (xs i)) [0..<n])"
    by blast
  from Suc.prems [of n] obtain t where
    pg: "search_page E c cls la (served w + n) = Inr (xs n, Some t)"
    and tk: "tok n = Some t" "t \<noteq> PNone"
    by (cases "tok n") (auto simp: last_token_def)
  let ?c' = "c\<lparr>bytesRead := b\<rparr>"
  let ?r = "doRequest E ?c' w' ''POST'' u cls Map.empty (Some (toJsonString E (carried rq tok n)))"
  obtain b' where c1: "fst (snd ?r) = ?c'\<lparr>bytesRead := b'\<rparr>"
    using doRequest_client_ex by blast
  let ?w2 = "(snd (snd ?r))\<lparr>events := events (snd (snd ?r)) @ map Yield (xs n)\<rparr>"
  have step: "searchLoop (Suc f) E u cls la ?c' (carried rq tok n) w'
               = searchLoop f E u cls la (c\<lparr>bytesRead := b'\<rparr>) (carried rq tok (Suc n)) ?w2"
    using pg sv by (simp add: searchLoop_Suc [of f E u cls la ?c'] tk c1 Let_def)
  have ev2: "events ?w2 = events w @
               concat (map (\<lambda>i. Request (search_request E c u (carried rq tok i))
                                 # map Yield (xs i)) [0..<Suc n])"
    by (simp add: doRequest_events ev search_request_def)
  have sv2: "served ?w2 = served w + Suc n"
    by (simp add: doRequest_served sv)
  have "searchLoop (Suc n + f) E u cls la c rq w
          = searchLoop f E u cls la (c\<lparr>bytesRead := b'\<rparr>) (carried rq tok (Suc n)) ?w2"
    using run step by simp
  with sv2 ev2 show ?case by blast
qed

lemma yielded_Nil [simp]: "yielded [] = []"
  by (simp add: yielded_def)

lemma yielded_append [simp]: "yielded (evs @ evs') = yielded evs @ yielded evs'"
  by (simp add: yielded_def)

lemma yielded_Request [simp]: "yielded (Request rq # evs) = yielded evs"
  by (simp add: yielded_def)

lemma yielded_Yield [simp]: "yielded (map Yield xs) = xs"
  by (induction xs) (simp_all add: yielded_def)

lemma yielded_pages:
  "yielded (concat (map (\<lambda>i. Request (rq i) # map Yield (xs i)) is)) = concat (map xs is)"
  by (induction "is") simp_all

text \<open>The run of a search over \<open>n\<close> pages that carry a token and one that does not.\<close>

lemma searchLoop_complete:
  assumes pages: "\<And>i. i \<le> n \<Longrightarrow> search_page E c cls la (served w + i) = Inr (xs i, tok i)"
    and more: "\<And>i. i < n \<Longrightarrow> \<not> last_token (tok i)"
    and last: "last_token (tok n)"
  shows "\<exists>b w'. searchLoop (Suc n + f) E u cls la c rq w
                   = Some (None, c\<lparr>bytesRead := b\<rparr>, carried rq tok (Suc n), w')
           \<and> served w' = served w + Suc n
           \<and> events w' = events w @
                concat (map (\<lambda>i. Request (search_request E c u (carried rq tok i))
                                  # map Yield (xs i)) [0..<Suc n])"
proof -
  have "\<And>i. i < n \<Longrightarrow>
          search_page E c cls la (served w + i) = Inr (xs i, tok i) \<and> \<not> last_token (tok i)"
    using pages more by simp
  from searchLoop_pages [OF this, where f = "Suc f" and u = u and rq = rq] obtain b w' where
    run: "searchLoop (n + Suc f) E u cls la c rq w
            = searchLoop (Suc f) E u cls la (c\<lparr>bytesRead := b\<rparr>) (carried rq tok n) w'"
    and sv: "served w' = served w + n"
    and ev: "events w' = events w @
               concat (map (\<lambda>i. Request (search_request E c u (carried rq tok i))
                                 # map Yield (xs i)) [0..<n])"
    by blast
  let ?c' = "c\<lparr>bytesRead := b\<rparr>"
  let ?r = "doRequest E ?c' w' ''POST'' u cls Map.empty (Some (toJsonString E (carried rq tok n)))"
  obtain b' where c1: "fst (snd ?r) = ?c'\<lparr>bytesRead := b'\<rparr>"
    using doRequest_client_ex by blast
  let ?w2 = "(snd (snd ?r))\<lparr>events := events (snd (snd ?r)) @ map Yield (xs n)\<rparr>"
  have pg: "search_page E c cls la (served w + n) = Inr (xs n, tok n)"
    using pages by simp
  have step: "searchLoop (Suc f) E u cls la ?c' (carried rq tok n) w'
               = Some (None, c\<lparr>bytesRead := b'\<rparr>, carried rq tok (Suc n), ?w2)"
    using pg sv last
    by (auto simp add: searchLoop_Suc [of f E u cls la ?c'] c1 Let_def last_token_def)
  have ev2: "events ?w2 = events w @
               concat (map (\<lambda>i. Request (search_request E c u (carried rq tok i))
                                 # map Yield (xs i)) [0..<Suc n])"
    by (simp add: doRequest_events ev search_request_def)
  have sv2: "served ?w2 = served w + Suc n"
    by (simp add: doRequest_served sv)
  have "searchLoop (Suc n + f) E u cls la c rq w
          = Some (None, c\<lparr>bytesRead := b'\<rparr>, carried rq tok (Suc n), ?w2)"
    using run step by simp
  with sv2 ev2 show ?thesis by blast
qed

text \<open>
  C1. Let the server answer the requests of a search with \<open>n + 1\<close> pages, each of which
  passes the status check and is read by the protocol class, the first \<open>n\<close> with a
  continuation token and the last with a null or absent one. Then \<^verbatim>\<open>runSearchRequest\<close>,
  given more than \<open>n\<close> iterations, ends without an exception after exactly \<open>n + 1\<close>
  requests; the elements it has yielded are the concatenation of the list attributes of
  the pages, in order and once each; and the events are, page after page, the request
  for the page (carrying the token of the page before) followed by all elements of
  that page, so that a page is handed over entirely before the next request goes out.
\<close>

theorem search_yields_concatenation_of_pages:
  assumes pages: "\<And>i. i \<le> n \<Longrightarrow>
            search_page E c fromJsonString listAttr (served w + i) = Inr (xs i, tok i)"
    and more: "\<And>i. i < n \<Longrightarrow> \<not> last_token (tok i)"
    and last: "last_token (tok n)"
    and fuel: "n < fuel"
  shows "\<exists>b w'.
           runSearchRequest fuel E c w protocolRequest objectName fromJsonString listAttr
             = Some (None, c\<lparr>bytesRead := b\<rparr>, carried protocolRequest tok (Suc n), w')
           \<and> served w' = served w + Suc n
           \<and> events w' = events w @
                concat (map (\<lambda>i. Request (search_request E c
                                     (posixpath_join (urlPrefix c) (objectName @ ''/search''))
                                     (carried protocolRequest tok i))
                                  # map Yield (xs i)) [0..<Suc n])
           \<and> yielded (events w') = yielded (events w) @ concat (map xs [0..<Suc n])"
proof -
  obtain f where f: "fuel = Suc n + f"
    using fuel by (metis Suc_leI le_Suc_ex)
  let ?u = "posixpath_join (urlPrefix c) (objectName @ ''/search'')"
  from searchLoop_complete [OF pages more last, where f = f and u = ?u and rq = protocolRequest] obtain b w' where
    run: "searchLoop (Suc n + f) E ?u fromJsonString listAttr c protocolRequest w
            = Some (None, c\<lparr>bytesRead := b\<rparr>, carried protocolRequest tok (Suc n), w')"
    and sv: "served w' = served w + Suc n"
    and ev: "events w' = events w @
               concat (map (\<lambda>i. Request (search_request E c ?u (carried protocolRequest tok i))
                                 # map Yield (xs i)) [0..<Suc n])"
    by blast
  have "yielded (events w') = yielded (events w) @ concat (map xs [0..<Suc n])"
    unfolding ev yielded_append yielded_pages ..
  with run sv ev show ?thesis
    unfolding runSearchRequest_def f by blast
qed


theorem search_yields_concatenation_of_pages_witness:
  "\<exists>b w'.
     runSearchRequest 5 demo_env demo_client world0 [] ''variants'' demo_class ''variants''
       = Some (None, demo_client\<lparr>bytesRead := b\<rparr>, [(''pageToken'', PNone)], w')
     \<and> served w' = 2
     \<and> events w' =
         [Request \<lparr>req_method = ''POST'', req_url = ''http://h/v0/variants/search'',
                   req_params = Map.empty, req_data = Some ''first'',
                   req_headers = [''Content-type'' \<mapsto> ''application/json'']\<rparr>,
          Yield (PInt 1), Yield (PInt 2),
          Request \<lparr>req_method = ''POST'', req_url = ''http://h/v0/variants/search'',
                   req_params = Map.empty, req_data = Some ''pageToken=abc'',
                   req_headers = [''Content-type'' \<mapsto> ''application/json'']\<rparr>,
          Yield (PInt 3)]
     \<and> yielded (events w') = [PInt 1, PInt 2, PInt 3]"
proof -
  let ?xs = "\<lambda>i::nat. if i = 0 then [PInt 1, PInt 2] else [PInt 3]"
  let ?tok = "\<lambda>i::nat. if i = 0 then Some (PStr ''abc'') else Some PNone"
  have pages: "\<And>i. i \<le> Suc 0 \<Longrightarrow>
      search_page demo_env demo_client demo_class ''variants'' (served world0 + i)
        = Inr (?xs i, ?tok i)"
  proof -
    fix i :: nat
    assume "i \<le> Suc 0"
    then have "i = 0 \<or> i = Suc 0" by arith
    then show "search_page demo_env demo_client demo_class ''variants'' (served world0 + i)
        = Inr (?xs i, ?tok i)"
      by (auto simp add: search_page_def delivered_def demo_env_def demo_server_def
            demo_class_def demo_client_def HttpClient_init_def world0_def codes_ok_def
            getattr_def)
  qed
  have more: "\<And>i. i < Suc 0 \<Longrightarrow> \<not> last_token (?tok i)"
    by (simp add: last_token_def)
  have last: "last_token (?tok (Suc 0))"
    by (simp add: last_token_def)
  have fuel: "Suc 0 < 5" by simp
  from search_yields_concatenation_of_pages
         [where E = demo_env and c = demo_client and fromJsonString = demo_class
            and listAttr = "''variants''" and w = world0 and xs = ?xs and tok = ?tok
            and n = "Suc 0" and fuel = 5 and protocolRequest = "[]"
            and objectName = "''variants''",
          OF pages more last fuel]
  obtain b w' where
    run: "runSearchRequest 5 demo_env demo_client world0 [] ''variants'' demo_class ''variants''
            = Some (None, demo_client\<lparr>bytesRead := b\<rparr>, carried [] ?tok (Suc (Suc 0)), w')"
    and sv: "served w' = served world0 + Suc (Suc 0)"
    and ev: "events w' = events world0 @
               concat (map (\<lambda>i. Request (search_request demo_env demo_client
                                    (posixpath_join (urlPrefix demo_client) (''variants'' @ ''/search''))
                                    (carried [] ?tok i))
                                 # map Yield (?xs i)) [0..<Suc (Suc 0)])"
    and yl: "yielded (events w') = yielded (events world0) @ concat (map ?xs [0..<Suc (Suc 0)])"
    by blast
  have rq: "carried [] ?tok (Suc (Suc 0)) = [(''pageToken'', PNone)]"
    by (simp add: setattr_def)
  have sv': "served w' = 2"
    using sv by (simp add: world0_def)
  have ev': "events w' =
         [Request \<lparr>req_method = ''POST'', req_url = ''http://h/v0/variants/search'',
                   req_params = Map.empty, req_data = Some ''first'',
                   req_headers = [''Content-type'' \<mapsto> ''application/json'']\<rparr>,
          Yield (PInt 1), Yield (PInt 2),
          Request \<lparr>req_method = ''POST'', req_url = ''http://h/v0/variants/search'',
                   req_params = Map.empty, req_data = Some ''pageToken=abc'',
                   req_headers = [''Content-type'' \<mapsto> ''application/json'']\<rparr>,
          Yield (PInt 3)]"
    unfolding ev
    by (simp add: search_request_def demo_env_def demo_client_def HttpClient_init_def
          world0_def posixpath_join_def getAuth_def usingWorkaroundsFor_def setattr_def)
  have yl': "yielded (events w') = [PInt 1, PInt 2, PInt 3]"
    unfolding yl by (simp add: world0_def)
  from run rq sv' ev' yl' show ?thesis
    by metis
qed


section \<open>Termination of the two pagination loops\<close>

text \<open>One iteration of the loop of \<^verbatim>\<open>runListRequest\<close>.\<close>

lemma listLoop_Suc:
  "listLoop (Suc n) E u cls c rq w =
     (let r = doRequest E c w ''GET'' u cls (toJsonDict E rq) None;
          c1 = fst (snd r); w1 = snd (snd r)
      in case list_page E c cls (served w) of
           Inl e \<Rightarrow> Some (Some e, c1, rq, w1)
         | Inr (obj, tok) \<Rightarrow>
             (case tok of
                None \<Rightarrow> Some (None, c1, rq, w1\<lparr>events := events w1 @ [Yield (PObject obj)]\<rparr>)
              | Some t \<Rightarrow>
                  if t = PNone
                  then Some (None, c1, setattr rq ''pageToken'' t,
                             w1\<lparr>events := events w1 @ [Yield (PObject obj)]\<rparr>)
                  else listLoop n E u cls c1 (setattr rq ''pageToken'' t)
                         (w1\<lparr>events := events w1 @ [Yield (PObject obj)]\<rparr>)))"
proof (cases "doRequest E c w ''GET'' u cls (toJsonDict E rq) None")
  case (fields res c1 w1)
  have d: "delivered E c cls (served w) = res"
    using doRequest_fst [of E c w "''GET''" u cls "toJsonDict E rq" None] fields
    by simp
  show ?thesis
    by (simp add: fields list_page_def d updateNotDone_def Let_def
          split: sum.split option.split)
qed

declare listLoop.simps(2) [simp del]

lemma search_stops_bytesRead [simp]:
  "search_stops E (c\<lparr>bytesRead := b\<rparr>) cls la i = search_stops E c cls la i"
  by (simp add: search_stops_def)

lemma list_stops_bytesRead [simp]:
  "list_stops E (c\<lparr>bytesRead := b\<rparr>) cls i = list_stops E c cls i"
  by (simp add: list_stops_def)

lemma search_goes_on:
  assumes "\<not> search_stops E c cls la i"
  obtains xs t where "search_page E c cls la i = Inr (xs, Some t)" and "t \<noteq> PNone"
proof (cases "search_page E c cls la i")
  case (Inl e)
  with assms show ?thesis by (simp add: search_stops_def)
next
  case (Inr p)
  obtain xs tok where p: "p = (xs, tok)" by (cases p)
  show ?thesis
  proof (cases tok)
    case None
    with assms Inr p show ?thesis by (simp add: search_stops_def last_token_def)
  next
    case (Some t)
    with assms Inr p have "t \<noteq> PNone" by (auto simp: search_stops_def last_token_def)
    with that Inr p Some show ?thesis by simp
  qed
qed

lemma searchLoop_ends_stops:
  "searchLoop fuel E u cls la c rq w \<noteq> None
     \<Longrightarrow> \<exists>i. served w \<le> i \<and> search_stops E c cls la i"
proof (induction fuel arbitrary: c rq w)
  case 0
  then show ?case by simp
next
  case (Suc fuel)
  show ?case
  proof (cases "search_stops E c cls la (served w)")
    case True
    then show ?thesis by blast
  next
    case False
    then obtain xs t where pg: "search_page E c cls la (served w) = Inr (xs, Some t)"
      and t: "t \<noteq> PNone"
      by (rule search_goes_on)
    let ?r = "doRequest E c w ''POST'' u cls Map.empty (Some (toJsonString E rq))"
    obtain b where c1: "fst (snd ?r) = c\<lparr>bytesRead := b\<rparr>"
      using doRequest_client_ex by blast
    let ?w2 = "(snd (snd ?r))\<lparr>events := events (snd (snd ?r)) @ map Yield xs\<rparr>"
    have "searchLoop (Suc fuel) E u cls la c rq w
            = searchLoop fuel E u cls la (c\<lparr>bytesRead := b\<rparr>) (setattr rq ''pageToken'' t) ?w2"
      by (simp add: searchLoop_Suc pg t c1 Let_def)
    with Suc.prems have "searchLoop fuel E u cls la (c\<lparr>bytesRead := b\<rparr>)
                            (setattr rq ''pageToken'' t) ?w2 \<noteq> None"
      by simp
    from Suc.IH [OF this] obtain i where "served ?w2 \<le> i" "search_stops E c cls la i"
      by auto
    then show ?thesis
      by (auto simp: doRequest_served intro!: exI [of _ i])
  qed
qed

lemma searchLoop_stops_ends:
  "search_stops E c cls la (served w + d)
     \<Longrightarrow> searchLoop (Suc d) E u cls la c rq w \<noteq> None"
proof (induction d arbitrary: c rq w)
  case 0
  then show ?case
    by (auto simp: searchLoop_Suc search_stops_def last_token_def Let_def
          split: sum.splits option.splits)
next
  case (Suc d)
  show ?case
  proof (cases "search_stops E c cls la (served w)")
    case True
    then show ?thesis
      by (auto simp: searchLoop_Suc [of "Suc d"] search_stops_def last_token_def Let_def
            split: sum.splits option.splits)
  next
    case False
    then obtain xs t where pg: "search_page E c cls la (served w) = Inr (xs, Some t)"
      and t: "t \<noteq> PNone"
      by (rule search_goes_on)
    let ?r = "doRequest E c w ''POST'' u cls Map.empty (Some (toJsonString E rq))"
    obtain b where c1: "fst (snd ?r) = c\<lparr>bytesRead := b\<rparr>"
      using doRequest_client_ex by blast
    let ?w2 = "(snd (snd ?r))\<lparr>events := events (snd (snd ?r)) @ map Yield xs\<rparr>"
    have step: "searchLoop (Suc (Suc d)) E u cls la c rq w
            = searchLoop (Suc d) E u cls la (c\<lparr>bytesRead := b\<rparr>) (setattr rq ''pageToken'' t) ?w2"
      by (simp add: searchLoop_Suc [of "Suc d"] pg t c1 Let_def)
    have "search_stops E (c\<lparr>bytesRead := b\<rparr>) cls la (served ?w2 + d)"
      using Suc.prems by (simp add: doRequest_served)
    from Suc.IH [OF this] show ?thesis
      unfolding step .
  qed
qed

lemma searchLoop_terminates_iff:
  "(\<exists>fuel. searchLoop fuel E u cls la c rq w \<noteq> None)
     = (\<exists>i. served w \<le> i \<and> search_stops E c cls la i)"
proof
  assume "\<exists>fuel. searchLoop fuel E u cls la c rq w \<noteq> None"
  then show "\<exists>i. served w \<le> i \<and> search_stops E c cls la i"
    using searchLoop_ends_stops by blast
next
  assume "\<exists>i. served w \<le> i \<and> search_stops E c cls la i"
  then obtain i where "served w \<le> i" "search_stops E c cls la i" by blast
  then have "search_stops E c cls la (served w + (i - served w))" by simp
  from searchLoop_stops_ends [OF this] show "\<exists>fuel. searchLoop fuel E u cls la c rq w \<noteq> None"
    by blast
qed


lemma list_goes_on:
  assumes "\<not> list_stops E c cls i"
  obtains obj t where "list_page E c cls i = Inr (obj, Some t)" and "t \<noteq> PNone"
proof (cases "list_page E c cls i")
  case (Inl e)
  with assms show ?thesis by (simp add: list_stops_def)
next
  case (Inr p)
  obtain obj tok where p: "p = (obj, tok)" by (cases p)
  show ?thesis
  proof (cases tok)
    case None
    with assms Inr p show ?thesis by (simp add: list_stops_def last_token_def)
  next
    case (Some t)
    with assms Inr p have "t \<noteq> PNone" by (auto simp: list_stops_def last_token_def)
    with that Inr p Some show ?thesis by simp
  qed
qed

lemma listLoop_ends_stops:
  "listLoop fuel E u cls c rq w \<noteq> None
     \<Longrightarrow> \<exists>i. served w \<le> i \<and> list_stops E c cls i"
proof (induction fuel arbitrary: c rq w)
  case 0
  then show ?case by simp
next
  case (Suc fuel)
  show ?case
  proof (cases "list_stops E c cls (served w)")
    case True
    then show ?thesis by blast
  next
    case False
    then obtain obj t where pg: "list_page E c cls (served w) = Inr (obj, Some t)"
      and t: "t \<noteq> PNone"
      by (rule list_goes_on)
    let ?r = "doRequest E c w ''GET'' u cls (toJsonDict E rq) None"
    obtain b where c1: "fst (snd ?r) = c\<lparr>bytesRead := b\<rparr>"
      using doRequest_client_ex by blast
    let ?w2 = "(snd (snd ?r))\<lparr>events := events (snd (snd ?r)) @ [Yield (PObject obj)]\<rparr>"
    have "listLoop (Suc fuel) E u cls c rq w
            = listLoop fuel E u cls (c\<lparr>bytesRead := b\<rparr>) (setattr rq ''pageToken'' t) ?w2"
      by (simp add: listLoop_Suc pg t c1 Let_def)
    with Suc.prems have "listLoop fuel E u cls (c\<lparr>bytesRead := b\<rparr>)
                            (setattr rq ''pageToken'' t) ?w2 \<noteq> None"
      by simp
    from Suc.IH [OF this] obtain i where "served ?w2 \<le> i" "list_stops E c cls i"
      by auto
    then show ?thesis
      by (auto simp: doRequest_served intro!: exI [of _ i])
  qed
qed

lemma listLoop_stops_ends:
  "list_stops E c cls (served w + d)
     \<Longrightarrow> listLoop (Suc d) E u cls c rq w \<noteq> None"
proof (induction d arbitrary: c rq w)
  case 0
  then show ?case
    by (auto simp: listLoop_Suc list_stops_def last_token_def Let_def
          split: sum.splits option.splits)
next
  case (Suc d)
  show ?case
  proof (cases "list_stops E c cls (served w)")
    case True
    then show ?thesis
      by (auto simp: listLoop_Suc [of "Suc d"] list_stops_def last_token_def Let_def
            split: sum.splits option.splits)
  next
    case False
    then obtain obj t where pg: "list_page E c cls (served w) = Inr (obj, Some t)"
      and t: "t \<noteq> PNone"
      by (rule list_goes_on)
    let ?r = "doRequest E c w ''GET'' u cls (toJsonDict E rq) None"
    obtain b where c1: "fst (snd ?r) = c\<lparr>bytesRead := b\<rparr>"
      using doRequest_client_ex by blast
    let ?w2 = "(snd (snd ?r))\<lparr>events := events (snd (snd ?r)) @ [Yield (PObject obj)]\<rparr>"
    have step: "listLoop (Suc (Suc d)) E u cls c rq w
            = listLoop (Suc d) E u cls (c\<lparr>bytesRead := b\<rparr>) (setattr rq ''pageToken'' t) ?w2"
      by (simp add: listLoop_Suc [of "Suc d"] pg t c1 Let_def)
    have "list_stops E (c\<lparr>bytesRead := b\<rparr>) cls (served ?w2 + d)"
      using Suc.prems by (simp add: doRequest_served)
    from Suc.IH [OF this] show ?thesis
      unfolding step .
  qed
qed

lemma listLoop_terminates_iff:
  "(\<exists>fuel. listLoop fuel E u cls c rq w \<noteq> None)
     = (\<exists>i. served w \<le> i \<and> list_stops E c cls i)"
proof
  assume "\<exists>fuel. listLoop fuel E u cls c rq w \<noteq> None"
  then show "\<exists>i. served w \<le> i \<and> list_stops E c cls i"
    using listLoop_ends_stops by blast
next
  assume "\<exists>i. served w \<le> i \<and> list_stops E c cls i"
  then obtain i where "served w \<le> i" "list_stops E c cls i" by blast
  then have "list_stops E c cls (served w + (i - served w))" by simp
  from listLoop_stops_ends [OF this] show "\<exists>fuel. listLoop fuel E u cls c rq w \<noteq> None"
    by blast
qed

lemma no_token_stops:
  assumes "token_absent_or_null E cls i"
  shows "search_stops E c cls la i" and "list_stops E c cls i"
  using assms
  by (auto simp: token_absent_or_null_def search_stops_def search_page_def list_stops_def
        list_page_def delivered_def split: sum.splits)

text \<open>
  C2, as amended. The loop of \<^verbatim>\<open>runSearchRequest\<close> comes to an end within some number of
  iterations if and only if one of the server's answers from the current one on stops it:
  the request fails (no response, a status other than 200, a body the verbose dump or the
  protocol class cannot read), the list attribute cannot be read, or the continuation
  token is absent or null. The same holds for \<^verbatim>\<open>runListRequest\<close>, which also ends at once
  when its URL template cannot be formatted. In particular, if the server sooner or later
  returns a response whose body has an absent or null continuation token, both loops
  end: the iterator is finite.
\<close>

theorem pagination_terminates_iff_page_stops:
  "((\<exists>fuel. runSearchRequest fuel E c w protocolRequest objectName fromJsonString listAttr \<noteq> None)
      = (\<exists>i. served w \<le> i \<and> search_stops E c fromJsonString listAttr i))
   \<and> ((\<exists>fuel. runListRequest fuel E c w protocolRequest url fromJsonString id' \<noteq> None)
      = (isl (py_format [''id'' \<mapsto> id'] (posixpath_join (urlPrefix c) url))
           \<or> (\<exists>i. served w \<le> i \<and> list_stops E c fromJsonString i)))
   \<and> (eventually_no_token E fromJsonString (served w) \<longrightarrow>
        (\<exists>fuel. runSearchRequest fuel E c w protocolRequest objectName fromJsonString listAttr
                   \<noteq> None)
        \<and> (\<exists>fuel. runListRequest fuel E c w protocolRequest url fromJsonString id' \<noteq> None))"
proof (intro conjI impI)
  show search: "(\<exists>fuel. runSearchRequest fuel E c w protocolRequest objectName fromJsonString
                         listAttr \<noteq> None)
      = (\<exists>i. served w \<le> i \<and> search_stops E c fromJsonString listAttr i)"
    unfolding runSearchRequest_def by (rule searchLoop_terminates_iff)
  show list: "(\<exists>fuel. runListRequest fuel E c w protocolRequest url fromJsonString id' \<noteq> None)
      = (isl (py_format [''id'' \<mapsto> id'] (posixpath_join (urlPrefix c) url))
           \<or> (\<exists>i. served w \<le> i \<and> list_stops E c fromJsonString i))"
  proof (cases "py_format [''id'' \<mapsto> id'] (posixpath_join (urlPrefix c) url)")
    case (Inl e)
    then show ?thesis by (simp add: runListRequest_def)
  next
    case (Inr fullUrl)
    then show ?thesis
      unfolding runListRequest_def
      by (simp only: sum.case listLoop_terminates_iff sum.disc simp_thms)
  qed
  assume "eventually_no_token E fromJsonString (served w)"
  then obtain i where i: "served w \<le> i" "token_absent_or_null E fromJsonString i"
    by (auto simp: eventually_no_token_def)
  from i no_token_stops [OF i(2)]
  show "\<exists>fuel. runSearchRequest fuel E c w protocolRequest objectName fromJsonString listAttr
                 \<noteq> None"
    unfolding search by blast
  from i no_token_stops [OF i(2)]
  show "\<exists>fuel. runListRequest fuel E c w protocolRequest url fromJsonString id' \<noteq> None"
    unfolding list by blast
qed


theorem pagination_terminates_iff_page_stops_witness:
  "eventually_no_token demo_env demo_class (served world0)
   \<and> (\<exists>fuel. runSearchRequest fuel demo_env demo_client world0 [] ''variants'' demo_class
                 ''variants'' \<noteq> None)
   \<and> (\<exists>fuel. runListRequest fuel demo_env demo_client world0 [] ''references/{id}/bases''
                 demo_class ''r1'' \<noteq> None)"
proof -
  have "token_absent_or_null demo_env demo_class 1"
    by (simp add: token_absent_or_null_def demo_env_def demo_server_def demo_class_def
          last_token_def)
  then have h: "eventually_no_token demo_env demo_class (served world0)"
    unfolding eventually_no_token_def world0_def by (intro exI [of _ 1]) simp
  with pagination_terminates_iff_page_stops
         [of demo_env demo_client world0 "[]" "''variants''" demo_class "''variants''"
             "''references/{id}/bases''" "''r1''"]
  show ?thesis by blast
qed

text \<open>
  C2 as stated fails in the direction "only if": against a server that answers every
  request with status 404 and a body whose continuation token is \<^verbatim>\<open>"abc"\<close>, no response
  ever has an absent or null token, and the loop still ends, in its first iteration,
  with the exception of \<^verbatim>\<open>_checkStatus\<close>.
\<close>

theorem pagination_ends_on_failure_without_null_token:
  "runSearchRequest 1
     (always \<lparr>resp_status_code = 404, resp_text = ''page1'',
              resp_url = ''http://h/v0/variants/search''\<rparr>)
     demo_client world0 [] ''variants'' demo_class ''variants''
     = Some (Some (RequestFailed ''http://h/v0/variants/search'' 404), demo_client, [],
             \<lparr>served = 1,
              events = [Request \<lparr>req_method = ''POST'',
                                 req_url = ''http://h/v0/variants/search'',
                                 req_params = Map.empty, req_data = Some ''first'',
                                 req_headers = [''Content-type'' \<mapsto> ''application/json'']\<rparr>],
              stdout = [''page1'']\<rparr>)
   \<and> \<not> eventually_no_token
         (always \<lparr>resp_status_code = 404, resp_text = ''page1'',
                  resp_url = ''http://h/v0/variants/search''\<rparr>)
         demo_class (served world0)"
proof
  show "runSearchRequest 1
     (always \<lparr>resp_status_code = 404, resp_text = ''page1'',
              resp_url = ''http://h/v0/variants/search''\<rparr>)
     demo_client world0 [] ''variants'' demo_class ''variants''
     = Some (Some (RequestFailed ''http://h/v0/variants/search'' 404), demo_client, [],
             \<lparr>served = 1,
              events = [Request \<lparr>req_method = ''POST'',
                                 req_url = ''http://h/v0/variants/search'',
                                 req_params = Map.empty, req_data = Some ''first'',
                                 req_headers = [''Content-type'' \<mapsto> ''application/json'']\<rparr>],
              stdout = [''page1'']\<rparr>)"
    by (simp add: runSearchRequest_def searchLoop.simps(2) doRequest_def requests_request_def
          checkStatus_def always_def demo_env_def demo_client_def HttpClient_init_def
          world0_def posixpath_join_def getAuth_def usingWorkaroundsFor_def codes_ok_def)
  show "\<not> eventually_no_token
         (always \<lparr>resp_status_code = 404, resp_text = ''page1'',
                  resp_url = ''http://h/v0/variants/search''\<rparr>)
         demo_class (served world0)"
    by (simp add: eventually_no_token_def token_absent_or_null_def always_def demo_class_def
          last_token_def)
qed


section \<open>Failing requests\<close>

text \<open>The list runner over \<open>n\<close> pages that each carry a token.\<close>

lemma listLoop_pages:
  assumes pages: "\<And>i. i < n \<Longrightarrow>
            list_page E c cls (served w + i) = Inr (objs i, tok i) \<and> \<not> last_token (tok i)"
  shows "\<exists>b w'. listLoop (n + f) E u cls c rq w
                   = listLoop f E u cls (c\<lparr>bytesRead := b\<rparr>) (carried rq tok n) w'
           \<and> served w' = served w + n
           \<and> events w' = events w @
                concat (map (\<lambda>i. [Request (list_request E c u (carried rq tok i)),
                                   Yield (PObject (objs i))]) [0..<n])"
  using pages
proof (induction n arbitrary: f)
  case 0
  show ?case
    by (rule exI [of _ "bytesRead c"], rule exI [of _ w]) simp
next
  case (Suc n)
  have "\<And>i. i < n \<Longrightarrow>
          list_page E c cls (served w + i) = Inr (objs i, tok i) \<and> \<not> last_token (tok i)"
    using Suc.prems by simp
  from Suc.IH [OF this, of "Suc f"] obtain b w' where
    run: "listLoop (n + Suc f) E u cls c rq w
            = listLoop (Suc f) E u cls (c\<lparr>bytesRead := b\<rparr>) (carried rq tok n) w'"
    and sv: "served w' = served w + n"
    and ev: "events w' = events w @
               concat (map (\<lambda>i. [Request (list_request E c u (carried rq tok i)),
                                  Yield (PObject (objs i))]) [0..<n])"
    by blast
  from Suc.prems [of n] obtain t where
    pg: "list_page E c cls (served w + n) = Inr (objs n, Some t)"
    and tk: "tok n = Some t" "t \<noteq> PNone"
    by (cases "tok n") (auto simp: last_token_def)
  let ?c' = "c\<lparr>bytesRead := b\<rparr>"
  let ?r = "doRequest E ?c' w' ''GET'' u cls (toJsonDict E (carried rq tok n)) None"
  obtain b' where c1: "fst (snd ?r) = ?c'\<lparr>bytesRead := b'\<rparr>"
    using doRequest_client_ex by blast
  let ?w2 = "(snd (snd ?r))\<lparr>events := events (snd (snd ?r)) @ [Yield (PObject (objs n))]\<rparr>"
  have step: "listLoop (Suc f) E u cls ?c' (carried rq tok n) w'
               = listLoop f E u cls (c\<lparr>bytesRead := b'\<rparr>) (carried rq tok (Suc n)) ?w2"
    using pg sv by (simp add: listLoop_Suc [of f E u cls ?c'] tk c1 Let_def)
  have ev2: "events ?w2 = events w @
               concat (map (\<lambda>i. [Request (list_request E c u (carried rq tok i)),
                                  Yield (PObject (objs i))]) [0..<Suc n])"
    by (simp add: doRequest_events ev list_request_def)
  have sv2: "served ?w2 = served w + Suc n"
    by (simp add: doRequest_served sv)
  have "listLoop (Suc n + f) E u cls c rq w
          = listLoop f E u cls (c\<lparr>bytesRead := b'\<rparr>) (carried rq tok (Suc n)) ?w2"
    using run step by simp
  with sv2 ev2 show ?case by blast
qed

lemma yielded_list_pages:
  "yielded (concat (map (\<lambda>i. [Request (rq i), Yield (PObject (objs i))]) is))
     = map (\<lambda>i. PObject (objs i)) is"
  by (induction "is") (simp_all add: yielded_def)

lemma doRequest_status_fails:
  assumes "server E (served v) = Inr response"
    and "resp_status_code response \<noteq> codes_ok"
  shows "doRequest E c v m u cls ps d
           = (Inl (RequestFailed (resp_url response) (resp_status_code response)), c,
              v\<lparr>served := Suc (served v),
                events := events v @
                  [Request \<lparr>req_method = m, req_url = u, req_params = getAuth c ++ ps,
                            req_data = d,
                            req_headers = (if d \<noteq> None
                                           then [''Content-type'' \<mapsto> ''application/json'']
                                           else Map.empty)\<rparr>],
                stdout := stdout v @ [resp_text response]\<rparr>)"
  using assms
  by (simp add: doRequest_def requests_request_def checkStatus_def)

lemma delivered_status_fails:
  assumes "server E i = Inr response"
    and "resp_status_code response \<noteq> codes_ok"
  shows "delivered E c cls i = Inl (RequestFailed (resp_url response) (resp_status_code response))"
  using assms by (simp add: delivered_def)

text \<open>A search or a listing whose page \<open>n\<close> fails, after \<open>n\<close> pages that went well.\<close>

lemma searchLoop_fails_at:
  assumes pages: "\<And>i. i < n \<Longrightarrow>
            search_page E c cls la (served w + i) = Inr (xs i, tok i) \<and> \<not> last_token (tok i)"
    and fails: "delivered E c cls (served w + n) = Inl e"
  shows "\<exists>b w'. searchLoop (Suc n + f) E u cls la c rq w
                   = Some (Some e, c\<lparr>bytesRead := b\<rparr>, carried rq tok n, w')
           \<and> served w' = served w + Suc n
           \<and> events w' = events w @
                concat (map (\<lambda>i. Request (search_request E c u (carried rq tok i))
                                  # map Yield (xs i)) [0..<n])
                @ [Request (search_request E c u (carried rq tok n))]"
proof -
  from searchLoop_pages [OF pages, where f = "Suc f" and u = u and rq = rq] obtain b w' where
    run: "searchLoop (n + Suc f) E u cls la c rq w
            = searchLoop (Suc f) E u cls la (c\<lparr>bytesRead := b\<rparr>) (carried rq tok n) w'"
    and sv: "served w' = served w + n"
    and ev: "events w' = events w @
               concat (map (\<lambda>i. Request (search_request E c u (carried rq tok i))
                                 # map Yield (xs i)) [0..<n])"
    by blast
  let ?c' = "c\<lparr>bytesRead := b\<rparr>"
  let ?r = "doRequest E ?c' w' ''POST'' u cls Map.empty (Some (toJsonString E (carried rq tok n)))"
  obtain b' where c1: "fst (snd ?r) = ?c'\<lparr>bytesRead := b'\<rparr>"
    using doRequest_client_ex by blast
  have pg: "search_page E c cls la (served w + n) = Inl e"
    using fails by (simp add: search_page_def)
  have step: "searchLoop (Suc f) E u cls la ?c' (carried rq tok n) w'
               = Some (Some e, c\<lparr>bytesRead := b'\<rparr>, carried rq tok n, snd (snd ?r))"
    using pg sv by (simp add: searchLoop_Suc [of f E u cls la ?c'] c1 Let_def)
  have ev2: "events (snd (snd ?r)) = events w @
               concat (map (\<lambda>i. Request (search_request E c u (carried rq tok i))
                                 # map Yield (xs i)) [0..<n])
               @ [Request (search_request E c u (carried rq tok n))]"
    by (simp add: doRequest_events ev search_request_def)
  have sv2: "served (snd (snd ?r)) = served w + Suc n"
    by (simp add: doRequest_served sv)
  have "searchLoop (Suc n + f) E u cls la c rq w
          = Some (Some e, c\<lparr>bytesRead := b'\<rparr>, carried rq tok n, snd (snd ?r))"
    using run step by simp
  with sv2 ev2 show ?thesis by blast
qed

lemma listLoop_fails_at:
  assumes pages: "\<And>i. i < n \<Longrightarrow>
            list_page E c cls (served w + i) = Inr (objs i, tok i) \<and> \<not> last_token (tok i)"
    and fails: "delivered E c cls (served w + n) = Inl e"
  shows "\<exists>b w'. listLoop (Suc n + f) E u cls c rq w
                   = Some (Some e, c\<lparr>bytesRead := b\<rparr>, carried rq tok n, w')
           \<and> served w' = served w + Suc n
           \<and> events w' = events w @
                concat (map (\<lambda>i. [Request (list_request E c u (carried rq tok i)),
                                   Yield (PObject (objs i))]) [0..<n])
                @ [Request (list_request E c u (carried rq tok n))]"
proof -
  from listLoop_pages [OF pages, where f = "Suc f" and u = u and rq = rq] obtain b w' where
    run: "listLoop (n + Suc f) E u cls c rq w
            = listLoop (Suc f) E u cls (c\<lparr>bytesRead := b\<rparr>) (carried rq tok n) w'"
    and sv: "served w' = served w + n"
    and ev: "events w' = events w @
               concat (map (\<lambda>i. [Request (list_request E c u (carried rq tok i)),
                                  Yield (PObject (objs i))]) [0..<n])"
    by blast
  let ?c' = "c\<lparr>bytesRead := b\<rparr>"
  let ?r = "doRequest E ?c' w' ''GET'' u cls (toJsonDict E (carried rq tok n)) None"
  obtain b' where c1: "fst (snd ?r) = ?c'\<lparr>bytesRead := b'\<rparr>"
    using doRequest_client_ex by blast
  have pg: "list_page E c cls (served w + n) = Inl e"
    using fails by (simp add: list_page_def)
  have step: "listLoop (Suc f) E u cls ?c' (carried rq tok n) w'
               = Some (Some e, c\<lparr>bytesRead := b'\<rparr>, carried rq tok n, snd (snd ?r))"
    using pg sv by (simp add: listLoop_Suc [of f E u cls ?c'] c1 Let_def)
  have ev2: "events (snd (snd ?r)) = events w @
               concat (map (\<lambda>i. [Request (list_request E c u (carried rq tok i)),
                                  Yield (PObject (objs i))]) [0..<n])
               @ [Request (list_request E c u (carried rq tok n))]"
    by (simp add: doRequest_events ev list_request_def)
  have sv2: "served (snd (snd ?r)) = served w + Suc n"
    by (simp add: doRequest_served sv)
  have "listLoop (Suc n + f) E u cls c rq w
          = Some (Some e, c\<lparr>bytesRead := b'\<rparr>, carried rq tok n, snd (snd ?r))"
    using run step by simp
  with sv2 ev2 show ?thesis by blast
qed




lemma search_run_fails_at:
  assumes pages: "\<And>i. i < n \<Longrightarrow>
            search_page E c cls la (served w + i) = Inr (xs i, tok i) \<and> \<not> last_token (tok i)"
    and fails: "delivered E c cls (served w + n) = Inl e"
    and fuel: "n < fuel"
  shows "\<exists>b w'. runSearchRequest fuel E c w rq objectName cls la
                   = Some (Some e, c\<lparr>bytesRead := b\<rparr>, carried rq tok n, w')
           \<and> events w' = events w @
                concat (map (\<lambda>i. Request (search_request E c
                                     (posixpath_join (urlPrefix c) (objectName @ ''/search''))
                                     (carried rq tok i))
                                  # map Yield (xs i)) [0..<n])
                @ [Request (search_request E c
                              (posixpath_join (urlPrefix c) (objectName @ ''/search''))
                              (carried rq tok n))]
           \<and> yielded (events w') = yielded (events w) @ concat (map xs [0..<n])"
proof -
  obtain f where f: "fuel = Suc n + f"
    using fuel by (metis Suc_leI le_Suc_ex)
  let ?u = "posixpath_join (urlPrefix c) (objectName @ ''/search'')"
  from searchLoop_fails_at [OF pages fails, where f = f and u = ?u and rq = rq]
  obtain b w' where
    run: "searchLoop (Suc n + f) E ?u cls la c rq w
            = Some (Some e, c\<lparr>bytesRead := b\<rparr>, carried rq tok n, w')"
    and ev: "events w' = events w @
               concat (map (\<lambda>i. Request (search_request E c ?u (carried rq tok i))
                                 # map Yield (xs i)) [0..<n])
               @ [Request (search_request E c ?u (carried rq tok n))]"
    by blast
  have yl: "yielded (events w') = yielded (events w) @ concat (map xs [0..<n])"
    unfolding ev by (simp add: yielded_pages)
  show ?thesis
    unfolding runSearchRequest_def f
    by (rule exI [of _ b], rule exI [of _ w'], intro conjI) (rule run ev yl)+
qed

lemma list_run_fails_at:
  assumes pages: "\<And>i. i < n \<Longrightarrow>
            list_page E c cls (served w + i) = Inr (objs i, tok i) \<and> \<not> last_token (tok i)"
    and fails: "delivered E c cls (served w + n) = Inl e"
    and template: "py_format [''id'' \<mapsto> id'] (posixpath_join (urlPrefix c) url) = Inr fullUrl"
    and fuel: "n < fuel"
  shows "\<exists>b w'. runListRequest fuel E c w rq url cls id'
                   = Some (Some e, c\<lparr>bytesRead := b\<rparr>, carried rq tok n, w')
           \<and> events w' = events w @
                concat (map (\<lambda>i. [Request (list_request E c fullUrl (carried rq tok i)),
                                   Yield (PObject (objs i))]) [0..<n])
                @ [Request (list_request E c fullUrl (carried rq tok n))]
           \<and> yielded (events w') = yielded (events w) @ map (\<lambda>i. PObject (objs i)) [0..<n]"
proof -
  obtain f where f: "fuel = Suc n + f"
    using fuel by (metis Suc_leI le_Suc_ex)
  from listLoop_fails_at [OF pages fails, where f = f and u = fullUrl and rq = rq]
  obtain b w' where
    run: "listLoop (Suc n + f) E fullUrl cls c rq w
            = Some (Some e, c\<lparr>bytesRead := b\<rparr>, carried rq tok n, w')"
    and ev: "events w' = events w @
               concat (map (\<lambda>i. [Request (list_request E c fullUrl (carried rq tok i)),
                                  Yield (PObject (objs i))]) [0..<n])
               @ [Request (list_request E c fullUrl (carried rq tok n))]"
    by blast
  have yl: "yielded (events w') = yielded (events w) @ map (\<lambda>i. PObject (objs i)) [0..<n]"
    unfolding ev by (simp add: yielded_list_pages)
  have run': "runListRequest fuel E c w rq url cls id'
                = Some (Some e, c\<lparr>bytesRead := b\<rparr>, carried rq tok n, w')"
    unfolding runListRequest_def template f using run by simp
  show ?thesis
    by (rule exI [of _ b], rule exI [of _ w'], intro conjI) (rule run' ev yl)+
qed


text \<open>
  C3, as amended. The status check raises if and only if the status code of the response
  differs from \<^verbatim>\<open>requests.codes.ok\<close>, which is 200; the exception carries the URL of the
  response and its status code. A request of any operation whose response has another
  status fails with that exception and leaves the client, its byte counter included, as
  it was. When this is the request for page \<open>n\<close> of a search or of a listing whose
  first \<open>n\<close> pages went well, the run ends with that exception: the failing request is
  its last event, nothing is yielded after it, and the elements yielded are those of
  the \<open>n\<close> pages before.
\<close>

theorem request_fails_iff_status_not_200:
  assumes answer: "server E (served w + n) = Inr response"
    and pages: "\<And>i. i < n \<Longrightarrow>
          search_page E c fromJsonString listAttr (served w + i) = Inr (xs i, tok i)
          \<and> list_page E c fromJsonString (served w + i) = Inr (objs i, tok i)
          \<and> \<not> last_token (tok i)"
    and template: "py_format [''id'' \<mapsto> id'] (posixpath_join (urlPrefix c) url) = Inr fullUrl"
    and fuel: "n < fuel"
  shows "(fst (checkStatus v response)
            = Inl (RequestFailed (resp_url response) (resp_status_code response)))
          = (resp_status_code response \<noteq> codes_ok)
     \<and> (resp_status_code response = codes_ok \<longrightarrow> checkStatus v response = (Inr (), v))
     \<and> (resp_status_code response \<noteq> codes_ok \<longrightarrow>
          (served v = served w + n \<longrightarrow>
             fst (doRequest E c v httpMethod u fromJsonString httpParams httpData)
               = Inl (RequestFailed (resp_url response) (resp_status_code response))
             \<and> fst (snd (doRequest E c v httpMethod u fromJsonString httpParams httpData)) = c)
          \<and> (\<exists>b w'.
                runSearchRequest fuel E c w protocolRequest objectName fromJsonString listAttr
                  = Some (Some (RequestFailed (resp_url response) (resp_status_code response)),
                          c\<lparr>bytesRead := b\<rparr>, carried protocolRequest tok n, w')
                \<and> events w' = events w @
                     concat (map (\<lambda>i. Request (search_request E c
                                          (posixpath_join (urlPrefix c) (objectName @ ''/search''))
                                          (carried protocolRequest tok i))
                                       # map Yield (xs i)) [0..<n])
                     @ [Request (search_request E c
                                   (posixpath_join (urlPrefix c) (objectName @ ''/search''))
                                   (carried protocolRequest tok n))]
                \<and> yielded (events w') = yielded (events w) @ concat (map xs [0..<n]))
          \<and> (\<exists>b w'.
                runListRequest fuel E c w protocolRequest url fromJsonString id'
                  = Some (Some (RequestFailed (resp_url response) (resp_status_code response)),
                          c\<lparr>bytesRead := b\<rparr>, carried protocolRequest tok n, w')
                \<and> events w' = events w @
                     concat (map (\<lambda>i. [Request (list_request E c fullUrl
                                                  (carried protocolRequest tok i)),
                                        Yield (PObject (objs i))]) [0..<n])
                     @ [Request (list_request E c fullUrl (carried protocolRequest tok n))]
                \<and> yielded (events w') = yielded (events w) @ map (\<lambda>i. PObject (objs i)) [0..<n]))"
proof -
  let ?e = "RequestFailed (resp_url response) (resp_status_code response)"
  have check: "(fst (checkStatus v response) = Inl ?e) = (resp_status_code response \<noteq> codes_ok)"
    by (simp add: checkStatus_def)
  have pass: "resp_status_code response = codes_ok \<longrightarrow> checkStatus v response = (Inr (), v)"
    by (simp add: checkStatus_def)
  have rest: "(served v = served w + n \<longrightarrow>
             fst (doRequest E c v httpMethod u fromJsonString httpParams httpData) = Inl ?e
             \<and> fst (snd (doRequest E c v httpMethod u fromJsonString httpParams httpData)) = c)
          \<and> (\<exists>b w'.
                runSearchRequest fuel E c w protocolRequest objectName fromJsonString listAttr
                  = Some (Some ?e, c\<lparr>bytesRead := b\<rparr>, carried protocolRequest tok n, w')
                \<and> events w' = events w @
                     concat (map (\<lambda>i. Request (search_request E c
                                          (posixpath_join (urlPrefix c) (objectName @ ''/search''))
                                          (carried protocolRequest tok i))
                                       # map Yield (xs i)) [0..<n])
                     @ [Request (search_request E c
                                   (posixpath_join (urlPrefix c) (objectName @ ''/search''))
                                   (carried protocolRequest tok n))]
                \<and> yielded (events w') = yielded (events w) @ concat (map xs [0..<n]))
          \<and> (\<exists>b w'.
                runListRequest fuel E c w protocolRequest url fromJsonString id'
                  = Some (Some ?e, c\<lparr>bytesRead := b\<rparr>, carried protocolRequest tok n, w')
                \<and> events w' = events w @
                     concat (map (\<lambda>i. [Request (list_request E c fullUrl
                                                  (carried protocolRequest tok i)),
                                        Yield (PObject (objs i))]) [0..<n])
                     @ [Request (list_request E c fullUrl (carried protocolRequest tok n))]
                \<and> yielded (events w') = yielded (events w) @ map (\<lambda>i. PObject (objs i)) [0..<n])"
    if bad: "resp_status_code response \<noteq> codes_ok"
  proof (intro conjI impI)
    assume v: "served v = served w + n"
    then have "server E (served v) = Inr response"
      using answer by simp
    from doRequest_status_fails [OF this bad]
    show "fst (doRequest E c v httpMethod u fromJsonString httpParams httpData) = Inl ?e"
      and "fst (snd (doRequest E c v httpMethod u fromJsonString httpParams httpData)) = c"
      by simp_all
  next
    have fails: "delivered E c fromJsonString (served w + n) = Inl ?e"
      using answer bad by (rule delivered_status_fails)
    have sp: "\<And>i. i < n \<Longrightarrow>
        search_page E c fromJsonString listAttr (served w + i) = Inr (xs i, tok i)
        \<and> \<not> last_token (tok i)"
      using pages by simp
    show "\<exists>b w'.
            runSearchRequest fuel E c w protocolRequest objectName fromJsonString listAttr
              = Some (Some ?e, c\<lparr>bytesRead := b\<rparr>, carried protocolRequest tok n, w')
            \<and> events w' = events w @
                 concat (map (\<lambda>i. Request (search_request E c
                                      (posixpath_join (urlPrefix c) (objectName @ ''/search''))
                                      (carried protocolRequest tok i))
                                   # map Yield (xs i)) [0..<n])
                 @ [Request (search_request E c
                               (posixpath_join (urlPrefix c) (objectName @ ''/search''))
                               (carried protocolRequest tok n))]
            \<and> yielded (events w') = yielded (events w) @ concat (map xs [0..<n])"
      by (rule search_run_fails_at [OF sp fails fuel])
    have lp: "\<And>i. i < n \<Longrightarrow>
        list_page E c fromJsonString (served w + i) = Inr (objs i, tok i)
        \<and> \<not> last_token (tok i)"
      using pages by simp
    show "\<exists>b w'.
            runListRequest fuel E c w protocolRequest url fromJsonString id'
              = Some (Some ?e, c\<lparr>bytesRead := b\<rparr>, carried protocolRequest tok n, w')
            \<and> events w' = events w @
                 concat (map (\<lambda>i. [Request (list_request E c fullUrl
                                              (carried protocolRequest tok i)),
                                    Yield (PObject (objs i))]) [0..<n])
                 @ [Request (list_request E c fullUrl (carried protocolRequest tok n))]
            \<and> yielded (events w') = yielded (events w) @ map (\<lambda>i. PObject (objs i)) [0..<n]"
      by (rule list_run_fails_at [OF lp fails template fuel])
  qed
  show ?thesis
    by (rule conjI [OF check], rule conjI [OF pass], rule impI, erule rest)
qed


theorem request_fails_iff_status_not_200_witness:
  "fst (checkStatus world0
          \<lparr>resp_status_code = 503, resp_text = ''Service Unavailable'',
           resp_url = ''http://h/v0/variants/search''\<rparr>)
     = Inl (RequestFailed ''http://h/v0/variants/search'' 503)
   \<and> (\<exists>b w'.
        runSearchRequest 3 flaky_env demo_client world0 [] ''variants'' demo_class ''variants''
          = Some (Some (RequestFailed ''http://h/v0/variants/search'' 503),
                  demo_client\<lparr>bytesRead := b\<rparr>, [(''pageToken'', PStr ''abc'')], w')
        \<and> yielded (events w') = [PInt 1, PInt 2])
   \<and> (\<exists>b w'.
        runListRequest 3 flaky_env demo_client world0 [] ''references/{id}/bases'' demo_class
          ''r1''
          = Some (Some (RequestFailed ''http://h/v0/variants/search'' 503),
                  demo_client\<lparr>bytesRead := b\<rparr>, [(''pageToken'', PStr ''abc'')], w')
        \<and> yielded (events w')
            = [PObject [(''variants'', PList [PInt 1, PInt 2]),
                        (''nextPageToken'', PStr ''abc'')]])"
proof -
  let ?r = "\<lparr>resp_status_code = 503, resp_text = ''Service Unavailable'',
             resp_url = ''http://h/v0/variants/search''\<rparr>"
  let ?xs = "\<lambda>i::nat. [PInt 1, PInt 2]"
  let ?tok = "\<lambda>i::nat. Some (PStr ''abc'')"
  let ?objs = "\<lambda>i::nat. [(''variants'', PList [PInt 1, PInt 2]), (''nextPageToken'', PStr ''abc'')]"
  have answer: "server flaky_env (served world0 + Suc 0) = Inr ?r"
    by (simp add: flaky_env_def flaky_server_def demo_env_def)
  have pages: "\<And>i. i < Suc 0 \<Longrightarrow>
      search_page flaky_env demo_client demo_class ''variants'' (served world0 + i)
        = Inr (?xs i, ?tok i)
      \<and> list_page flaky_env demo_client demo_class (served world0 + i) = Inr (?objs i, ?tok i)
      \<and> \<not> last_token (?tok i)"
    by (simp add: search_page_def list_page_def delivered_def flaky_env_def flaky_server_def
          demo_env_def demo_class_def demo_client_def HttpClient_init_def world0_def
          codes_ok_def getattr_def last_token_def)
  have template: "py_format [''id'' \<mapsto> ''r1'']
                    (posixpath_join (urlPrefix demo_client) ''references/{id}/bases'')
                    = Inr ''http://h/v0/references/r1/bases''"
    by (simp add: posixpath_join_def field_value_def demo_client_def HttpClient_init_def)
  have fuel: "Suc 0 < 3" by simp
  have bad: "resp_status_code ?r \<noteq> codes_ok"
    by (simp add: codes_ok_def)
  note inst = request_fails_iff_status_not_200
               [where E = flaky_env and w = world0 and n = "Suc 0" and response = ?r
                  and c = demo_client and fromJsonString = demo_class
                  and listAttr = "''variants''" and xs = ?xs and tok = ?tok and objs = ?objs
                  and id' = "''r1''" and url = "''references/{id}/bases''"
                  and fullUrl = "''http://h/v0/references/r1/bases''" and fuel = 3
                  and v = world0 and protocolRequest = "[]" and objectName = "''variants''",
                OF answer pages template fuel]
  from inst bad have check: "fst (checkStatus world0 ?r)
      = Inl (RequestFailed (resp_url ?r) (resp_status_code ?r))"
    by blast
  from inst bad obtain b w' where
    run: "runSearchRequest 3 flaky_env demo_client world0 [] ''variants'' demo_class ''variants''
            = Some (Some (RequestFailed (resp_url ?r) (resp_status_code ?r)),
                    demo_client\<lparr>bytesRead := b\<rparr>, carried [] ?tok (Suc 0), w')"
    and yl: "yielded (events w') = yielded (events world0) @ concat (map ?xs [0..<Suc 0])"
    by blast
  from inst bad obtain b2 w2 where
    run2: "runListRequest 3 flaky_env demo_client world0 [] ''references/{id}/bases''
             demo_class ''r1''
            = Some (Some (RequestFailed (resp_url ?r) (resp_status_code ?r)),
                    demo_client\<lparr>bytesRead := b2\<rparr>, carried [] ?tok (Suc 0), w2)"
    and yl2: "yielded (events w2)
                = yielded (events world0) @ map (\<lambda>i. PObject (?objs i)) [0..<Suc 0]"
    by blast
  have c1: "fst (checkStatus world0 ?r) = Inl (RequestFailed ''http://h/v0/variants/search'' 503)"
    using check by simp
  have s1: "\<exists>b w'.
        runSearchRequest 3 flaky_env demo_client world0 [] ''variants'' demo_class ''variants''
          = Some (Some (RequestFailed ''http://h/v0/variants/search'' 503),
                  demo_client\<lparr>bytesRead := b\<rparr>, [(''pageToken'', PStr ''abc'')], w')
        \<and> yielded (events w') = [PInt 1, PInt 2]"
    using run yl by (intro exI [of _ b] exI [of _ w']) (simp add: setattr_def world0_def)
  have s2: "\<exists>b w'.
        runListRequest 3 flaky_env demo_client world0 [] ''references/{id}/bases'' demo_class
          ''r1''
          = Some (Some (RequestFailed ''http://h/v0/variants/search'' 503),
                  demo_client\<lparr>bytesRead := b\<rparr>, [(''pageToken'', PStr ''abc'')], w')
        \<and> yielded (events w')
            = [PObject [(''variants'', PList [PInt 1, PInt 2]),
                        (''nextPageToken'', PStr ''abc'')]]"
    using run2 yl2 by (intro exI [of _ b2] exI [of _ w2]) (simp add: setattr_def world0_def)
  from c1 s1 s2 show ?thesis
    by (intro conjI)
qed

text \<open>
  C3 as stated speaks of the statuses outside the range 2xx. The check is against 200
  alone: a response with status 204, which is in that range, fails the request.
\<close>

theorem status_204_fails_the_request:
  "is_2xx 204
   \<and> doRequest
        (always \<lparr>resp_status_code = 204, resp_text = [], resp_url = ''http://h/v0/references/r1''\<rparr>)
        demo_client world0 ''GET'' ''http://h/v0/references/r1'' demo_class Map.empty None
      = (Inl (RequestFailed ''http://h/v0/references/r1'' 204), demo_client,
         \<lparr>served = 1,
          events = [Request \<lparr>req_method = ''GET'', req_url = ''http://h/v0/references/r1'',
                             req_params = Map.empty, req_data = None,
                             req_headers = Map.empty\<rparr>],
          stdout = [[]]\<rparr>)"
  by (simp add: is_2xx_def doRequest_def requests_request_def checkStatus_def always_def
        demo_env_def demo_client_def HttpClient_init_def world0_def getAuth_def
        usingWorkaroundsFor_def codes_ok_def)


section \<open>The list runner\<close>

lemma listLoop_complete:
  assumes pages: "\<And>i. i \<le> n \<Longrightarrow> list_page E c cls (served w + i) = Inr (objs i, tok i)"
    and more: "\<And>i. i < n \<Longrightarrow> \<not> last_token (tok i)"
    and last: "last_token (tok n)"
  shows "\<exists>b w'. listLoop (Suc n + f) E u cls c rq w
                   = Some (None, c\<lparr>bytesRead := b\<rparr>, carried rq tok (Suc n), w')
           \<and> served w' = served w + Suc n
           \<and> events w' = events w @
                concat (map (\<lambda>i. [Request (list_request E c u (carried rq tok i)),
                                   Yield (PObject (objs i))]) [0..<Suc n])"
proof -
  have "\<And>i. i < n \<Longrightarrow>
          list_page E c cls (served w + i) = Inr (objs i, tok i) \<and> \<not> last_token (tok i)"
    using pages more by simp
  from listLoop_pages [OF this, where f = "Suc f" and u = u and rq = rq] obtain b w' where
    run: "listLoop (n + Suc f) E u cls c rq w
            = listLoop (Suc f) E u cls (c\<lparr>bytesRead := b\<rparr>) (carried rq tok n) w'"
    and sv: "served w' = served w + n"
    and ev: "events w' = events w @
               concat (map (\<lambda>i. [Request (list_request E c u (carried rq tok i)),
                                  Yield (PObject (objs i))]) [0..<n])"
    by blast
  let ?c' = "c\<lparr>bytesRead := b\<rparr>"
  let ?r = "doRequest E ?c' w' ''GET'' u cls (toJsonDict E (carried rq tok n)) None"
  obtain b' where c1: "fst (snd ?r) = ?c'\<lparr>bytesRead := b'\<rparr>"
    using doRequest_client_ex by blast
  let ?w2 = "(snd (snd ?r))\<lparr>events := events (snd (snd ?r)) @ [Yield (PObject (objs n))]\<rparr>"
  have pg: "list_page E c cls (served w + n) = Inr (objs n, tok n)"
    using pages by simp
  have step: "listLoop (Suc f) E u cls ?c' (carried rq tok n) w'
               = Some (None, c\<lparr>bytesRead := b'\<rparr>, carried rq tok (Suc n), ?w2)"
    using pg sv last
    by (auto simp add: listLoop_Suc [of f E u cls ?c'] c1 Let_def last_token_def)
  have ev2: "events ?w2 = events w @
               concat (map (\<lambda>i. [Request (list_request E c u (carried rq tok i)),
                                  Yield (PObject (objs i))]) [0..<Suc n])"
    by (simp add: doRequest_events ev list_request_def)
  have sv2: "served ?w2 = served w + Suc n"
    by (simp add: doRequest_served sv)
  have "listLoop (Suc n + f) E u cls c rq w
          = Some (None, c\<lparr>bytesRead := b'\<rparr>, carried rq tok (Suc n), ?w2)"
    using run step by simp
  with sv2 ev2 show ?thesis by blast
qed

text \<open>
  The list runner has the pagination of the search runner, with a \<^verbatim>\<open>GET\<close> whose query
  parameters are the request object, and it yields one whole response object per page:
  over \<open>n\<close> pages that carry a token and one that does not, it sends \<open>n + 1\<close> requests
  to the formatted URL and yields the \<open>n + 1\<close> response objects in order.
\<close>

theorem list_yields_one_object_per_page:
  assumes pages: "\<And>i. i \<le> n \<Longrightarrow>
            list_page E c fromJsonString (served w + i) = Inr (objs i, tok i)"
    and more: "\<And>i. i < n \<Longrightarrow> \<not> last_token (tok i)"
    and last: "last_token (tok n)"
    and template: "py_format [''id'' \<mapsto> id'] (posixpath_join (urlPrefix c) url) = Inr fullUrl"
    and fuel: "n < fuel"
  shows "\<exists>b w'.
           runListRequest fuel E c w protocolRequest url fromJsonString id'
             = Some (None, c\<lparr>bytesRead := b\<rparr>, carried protocolRequest tok (Suc n), w')
           \<and> served w' = served w + Suc n
           \<and> events w' = events w @
                concat (map (\<lambda>i. [Request (list_request E c fullUrl
                                            (carried protocolRequest tok i)),
                                   Yield (PObject (objs i))]) [0..<Suc n])
           \<and> yielded (events w')
               = yielded (events w) @ map (\<lambda>i. PObject (objs i)) [0..<Suc n]"
proof -
  obtain f where f: "fuel = Suc n + f"
    using fuel by (metis Suc_leI le_Suc_ex)
  from listLoop_complete [OF pages more last, where f = f and u = fullUrl
                            and rq = protocolRequest]
  obtain b w' where
    run: "listLoop (Suc n + f) E fullUrl fromJsonString c protocolRequest w
            = Some (None, c\<lparr>bytesRead := b\<rparr>, carried protocolRequest tok (Suc n), w')"
    and sv: "served w' = served w + Suc n"
    and ev: "events w' = events w @
               concat (map (\<lambda>i. [Request (list_request E c fullUrl
                                           (carried protocolRequest tok i)),
                                  Yield (PObject (objs i))]) [0..<Suc n])"
    by blast
  have yl: "yielded (events w')
              = yielded (events w) @ map (\<lambda>i. PObject (objs i)) [0..<Suc n]"
    unfolding ev yielded_append yielded_list_pages ..
  have run': "runListRequest fuel E c w protocolRequest url fromJsonString id'
                = Some (None, c\<lparr>bytesRead := b\<rparr>, carried protocolRequest tok (Suc n), w')"
    unfolding runListRequest_def template f using run by simp
  show ?thesis
    by (rule exI [of _ b], rule exI [of _ w'], intro conjI) (rule run' sv ev yl)+
qed

theorem list_yields_one_object_per_page_witness:
  "\<exists>b w'.
     runListRequest 5 demo_env demo_client world0 [] ''references/{id}/bases'' demo_class ''r1''
       = Some (None, demo_client\<lparr>bytesRead := b\<rparr>, [(''pageToken'', PNone)], w')
     \<and> served w' = 2
     \<and> yielded (events w')
         = [PObject [(''variants'', PList [PInt 1, PInt 2]), (''nextPageToken'', PStr ''abc'')],
            PObject [(''variants'', PList [PInt 3]), (''nextPageToken'', PNone)]]"
proof -
  let ?objs = "\<lambda>i::nat. if i = 0
                 then [(''variants'', PList [PInt 1, PInt 2]), (''nextPageToken'', PStr ''abc'')]
                 else [(''variants'', PList [PInt 3]), (''nextPageToken'', PNone)]"
  let ?tok = "\<lambda>i::nat. if i = 0 then Some (PStr ''abc'') else Some PNone"
  have pages: "\<And>i. i \<le> Suc 0 \<Longrightarrow>
      list_page demo_env demo_client demo_class (served world0 + i) = Inr (?objs i, ?tok i)"
  proof -
    fix i :: nat
    assume "i \<le> Suc 0"
    then have "i = 0 \<or> i = Suc 0" by arith
    then show "list_page demo_env demo_client demo_class (served world0 + i)
                 = Inr (?objs i, ?tok i)"
      by (auto simp add: list_page_def delivered_def demo_env_def demo_server_def
            demo_class_def demo_client_def HttpClient_init_def world0_def codes_ok_def)
  qed
  have more: "\<And>i. i < Suc 0 \<Longrightarrow> \<not> last_token (?tok i)"
    by (simp add: last_token_def)
  have last: "last_token (?tok (Suc 0))"
    by (simp add: last_token_def)
  have template: "py_format [''id'' \<mapsto> ''r1'']
                    (posixpath_join (urlPrefix demo_client) ''references/{id}/bases'')
                    = Inr ''http://h/v0/references/r1/bases''"
    by (simp add: posixpath_join_def field_value_def demo_client_def HttpClient_init_def)
  have fuel: "Suc 0 < 5" by simp
  from list_yields_one_object_per_page
         [where E = demo_env and c = demo_client and fromJsonString = demo_class
            and w = world0 and objs = ?objs and tok = ?tok and n = "Suc 0" and fuel = 5
            and protocolRequest = "[]" and url = "''references/{id}/bases''"
            and id' = "''r1''" and fullUrl = "''http://h/v0/references/r1/bases''",
          OF pages more last template fuel]
  obtain b w' where
    run: "runListRequest 5 demo_env demo_client world0 [] ''references/{id}/bases'' demo_class
            ''r1''
            = Some (None, demo_client\<lparr>bytesRead := b\<rparr>, carried [] ?tok (Suc (Suc 0)), w')"
    and sv: "served w' = served world0 + Suc (Suc 0)"
    and yl: "yielded (events w')
               = yielded (events world0) @ map (\<lambda>i. PObject (?objs i)) [0..<Suc (Suc 0)]"
    by blast
  have rq: "carried [] ?tok (Suc (Suc 0)) = [(''pageToken'', PNone)]"
    by (simp add: setattr_def)
  have sv': "served w' = 2"
    using sv by (simp add: world0_def)
  have yl': "yielded (events w')
         = [PObject [(''variants'', PList [PInt 1, PInt 2]), (''nextPageToken'', PStr ''abc'')],
            PObject [(''variants'', PList [PInt 3]), (''nextPageToken'', PNone)]]"
    unfolding yl by (simp add: world0_def)
  from run rq sv' yl' show ?thesis
    by metis
qed

section \<open>A page without a continuation token\<close>





section \<open>The single-object getter\<close>

text \<open>Text without braces goes through \<^verbatim>\<open>str.format\<close> unchanged.\<close>

lemma py_format_plain:
  "CHR ''{'' \<notin> set s \<Longrightarrow> CHR ''}'' \<notin> set s
     \<Longrightarrow> py_format kwargs (s @ t) = map_sum id ((@) s) (py_format kwargs t)"
proof (induction s)
  case Nil
  show ?case by (cases "py_format kwargs t") simp_all
next
  case (Cons ch s)
  then have ch: "ch \<noteq> CHR ''{''" "ch \<noteq> CHR ''}''"
    and s: "CHR ''{'' \<notin> set s" "CHR ''}'' \<notin> set s"
    by auto
  have "py_format kwargs ((ch # s) @ t) = map_sum id ((#) ch) (py_format kwargs (s @ t))"
    using ch by simp
  also have "\<dots> = map_sum id ((#) ch) (map_sum id ((@) s) (py_format kwargs t))"
    by (simp only: Cons.IH [OF s])
  also have "\<dots> = map_sum id ((@) (ch # s)) (py_format kwargs t)"
    by (cases "py_format kwargs t") simp_all
  finally show ?case .
qed

lemma py_format_get_template:
  "py_format [''id'' \<mapsto> id', ''objectName'' \<mapsto> objectName] ''{objectName}/{id}''
     = Inr (objectName @ ''/'' @ id')"
  by (simp add: field_value_def)

lemma get_url:
  assumes "CHR ''{'' \<notin> set prefix" "CHR ''}'' \<notin> set prefix"
  shows "py_format [''id'' \<mapsto> id', ''objectName'' \<mapsto> objectName]
           (posixpath_join prefix ''{objectName}/{id}'')
         = Inr ((if prefix = [] \<or> last prefix = CHR ''/'' then prefix else prefix @ ''/'')
                @ objectName @ ''/'' @ id')"
proof -
  let ?p = "if prefix = [] \<or> last prefix = CHR ''/'' then prefix else prefix @ ''/''"
  have j: "posixpath_join prefix ''{objectName}/{id}'' = ?p @ ''{objectName}/{id}''"
    by (simp add: posixpath_join_def)
  have "CHR ''{'' \<notin> set ?p" "CHR ''}'' \<notin> set ?p"
    using assms by auto
  from py_format_plain [OF this, of "[''id'' \<mapsto> id', ''objectName'' \<mapsto> objectName]"
         "''{objectName}/{id}''"]
  show ?thesis
    unfolding j py_format_get_template by simp
qed

text \<open>
  C6. \<^verbatim>\<open>runGetRequest\<close> applies \<^verbatim>\<open>.format\<close> to the joined string, prefix included, so
  the prefix is assumed to contain no brace (a URL does not). Then, for every resource
  name and identifier, the call issues exactly one request: a \<^verbatim>\<open>GET\<close> of the prefix, a
  separator unless the prefix is empty or ends with one, the resource name, a separator
  and the identifier; it has no body and no header, and its query parameters are none,
  or the single parameter \<^verbatim>\<open>key\<close> with the configured key when the workaround
  \<^verbatim>\<open>google\<close> is among the client's workarounds. What the call returns is what this one
  request delivers: with the verbose dump off and a response of status 200, the object
  the protocol class reads from the body.
\<close>

theorem get_request_issues_one_GET:
  assumes "CHR ''{'' \<notin> set (urlPrefix c)" and "CHR ''}'' \<notin> set (urlPrefix c)"
  shows "served (snd (snd (runGetRequest E c w objectName fromJsonString id'))) = Suc (served w)
     \<and> events (snd (snd (runGetRequest E c w objectName fromJsonString id')))
         = events w @
           [Request \<lparr>req_method = ''GET'',
                     req_url = (if urlPrefix c = [] \<or> last (urlPrefix c) = CHR ''/''
                                then urlPrefix c else urlPrefix c @ ''/'')
                               @ objectName @ ''/'' @ id',
                     req_params = (if ''google'' \<in> set (workarounds c)
                                   then [''key'' \<mapsto> key c] else Map.empty),
                     req_data = None,
                     req_headers = Map.empty\<rparr>]
     \<and> fst (runGetRequest E c w objectName fromJsonString id')
         = delivered E c fromJsonString (served w)
     \<and> (\<forall>response.
           server E (served w) = Inr response \<and> resp_status_code response = codes_ok
           \<and> debugLevel c \<le> 1
           \<longrightarrow> fst (runGetRequest E c w objectName fromJsonString id')
                 = fromJsonString (resp_text response))"
proof -
  let ?url = "(if urlPrefix c = [] \<or> last (urlPrefix c) = CHR ''/''
               then urlPrefix c else urlPrefix c @ ''/'') @ objectName @ ''/'' @ id'"
  have run: "runGetRequest E c w objectName fromJsonString id'
               = doRequest E c w ''GET'' ?url fromJsonString Map.empty None"
    unfolding runGetRequest_def Let_def get_url [OF assms] by simp
  have auth: "getAuth c = (if ''google'' \<in> set (workarounds c)
                           then [''key'' \<mapsto> key c] else Map.empty)"
    by (simp add: getAuth_def usingWorkaroundsFor_def workaroundGoogle_def)
  show ?thesis
    unfolding run
    by (simp add: doRequest_served doRequest_events doRequest_fst auth delivered_def)
qed

theorem get_request_issues_one_GET_witness:
  "runGetRequest demo_env (HttpClient_init ''http://h/v0'' 0 [''google''] (PStr ''k3y''))
     world0 ''references'' demo_class ''r1''
   = (Inr [(''variants'', PList [PInt 1, PInt 2]), (''nextPageToken'', PStr ''abc'')],
      (HttpClient_init ''http://h/v0'' 0 [''google''] (PStr ''k3y''))\<lparr>bytesRead := 5\<rparr>,
      \<lparr>served = 1,
       events = [Request \<lparr>req_method = ''GET'', req_url = ''http://h/v0/references/r1'',
                          req_params = [''key'' \<mapsto> PStr ''k3y''], req_data = None,
                          req_headers = Map.empty\<rparr>],
       stdout = []\<rparr>)"
proof -
  let ?c = "HttpClient_init ''http://h/v0'' 0 [''google''] (PStr ''k3y'')"
  let ?run = "runGetRequest demo_env ?c world0 ''references'' demo_class ''r1''"
  have p1: "CHR ''{'' \<notin> set (urlPrefix ?c)" and p2: "CHR ''}'' \<notin> set (urlPrefix ?c)"
    by (simp_all add: HttpClient_init_def)
  note inst = get_request_issues_one_GET
                [OF p1 p2, of demo_env world0 "''references''" demo_class "''r1''"]
  have sv: "served (snd (snd ?run)) = 1"
    using inst by (simp add: world0_def)
  have ev: "events (snd (snd ?run))
              = [Request \<lparr>req_method = ''GET'', req_url = ''http://h/v0/references/r1'',
                          req_params = [''key'' \<mapsto> PStr ''k3y''], req_data = None,
                          req_headers = Map.empty\<rparr>]"
    using inst by (simp add: world0_def HttpClient_init_def)
  have res: "fst ?run
               = Inr [(''variants'', PList [PInt 1, PInt 2]), (''nextPageToken'', PStr ''abc'')]"
    using inst
    by (simp add: delivered_def demo_env_def demo_server_def demo_class_def world0_def
          HttpClient_init_def codes_ok_def)
  have out: "stdout (snd (snd ?run)) = []"
    and cl: "fst (snd ?run) = ?c\<lparr>bytesRead := 5\<rparr>"
    by (simp_all add: runGetRequest_def posixpath_join_def field_value_def doRequest_def
          requests_request_def checkStatus_def deserializeResponse_def debugResponse_def
          updateBytesRead_def demo_env_def demo_server_def world0_def HttpClient_init_def
          codes_ok_def Let_def)
  have w: "snd (snd ?run)
             = \<lparr>served = 1,
                events = [Request \<lparr>req_method = ''GET'', req_url = ''http://h/v0/references/r1'',
                                   req_params = [''key'' \<mapsto> PStr ''k3y''], req_data = None,
                                   req_headers = Map.empty\<rparr>],
                stdout = []\<rparr>"
    by (rule world.equality) (simp_all add: sv ev out)
  show ?thesis
    using res cl w by (metis prod.collapse)
qed


section \<open>The verbose dump\<close>




section \<open>The byte counter\<close>

text \<open>
  C7. \<^verbatim>\<open>_updateBytesRead\<close> adds \<^verbatim>\<open>len(response.text)\<close>, the number of characters of the
  decoded body, where the claim and the documentation of \<^verbatim>\<open>getBytesRead\<close> ("the total
  number of (non HTTP) bytes read from the server") speak of bytes. The two differ as
  soon as the body has a character outside ASCII: the body of the five bytes
  \<^verbatim>\<open>63 61 66 C3 A9\<close> has the four characters \<^verbatim>\<open>c a f U+00E9\<close>, and a request that
  receives it with status 200 moves the counter by four.
\<close>

theorem byte_counter_counts_characters:
  "utf8_encode [CHR 0x63, CHR 0x61, CHR 0x66, CHR 0xE9]
     = [CHR 0x63, CHR 0x61, CHR 0x66, CHR 0xC3, CHR 0xA9]
   \<and> length (utf8_encode [CHR 0x63, CHR 0x61, CHR 0x66, CHR 0xE9]) = 5
   \<and> getBytesRead
        (fst (snd (doRequest
                     (always \<lparr>resp_status_code = 200,
                              resp_text = [CHR 0x63, CHR 0x61, CHR 0x66, CHR 0xE9],
                              resp_url = ''u''\<rparr>)
                     demo_client world0 ''GET'' ''u'' any_class Map.empty None)))
      = getBytesRead demo_client + 4"
proof (intro conjI)
  show "utf8_encode [CHR 0x63, CHR 0x61, CHR 0x66, CHR 0xE9]
          = [CHR 0x63, CHR 0x61, CHR 0x66, CHR 0xC3, CHR 0xA9]"
    by code_simp
  show "length (utf8_encode [CHR 0x63, CHR 0x61, CHR 0x66, CHR 0xE9]) = 5"
    by (simp add: utf8_encode_def utf8_encode_char_def Let_def)
  show "getBytesRead
        (fst (snd (doRequest
                     (always \<lparr>resp_status_code = 200,
                              resp_text = [CHR 0x63, CHR 0x61, CHR 0x66, CHR 0xE9],
                              resp_url = ''u''\<rparr>)
                     demo_client world0 ''GET'' ''u'' any_class Map.empty None)))
      = getBytesRead demo_client + 4"
    by (simp add: doRequest_def requests_request_def checkStatus_def deserializeResponse_def
          debugResponse_def updateBytesRead_def getBytesRead_def always_def demo_env_def
          demo_client_def HttpClient_init_def world0_def codes_ok_def)
qed

text \<open>
  What the counter does do: a request adds to it the number of characters of the text of
  its response when the response passes the status check, and nothing otherwise; so it
  never decreases.
\<close>

proposition byte_counter_is_additive:
  "getBytesRead (fst (snd (doRequest E c w httpMethod url fromJsonString httpParams httpData)))
     = getBytesRead c +
       (case server E (served w) of
          Inl e \<Rightarrow> 0
        | Inr response \<Rightarrow>
            if resp_status_code response = codes_ok then int (length (resp_text response))
            else 0)
   \<and> getBytesRead c
       \<le> getBytesRead (fst (snd (doRequest E c w httpMethod url fromJsonString httpParams
                                   httpData)))"
  by (simp add: doRequest_def requests_request_def checkStatus_def deserializeResponse_def
        debugResponse_def updateBytesRead_def getBytesRead_def Let_def split: sum.split)


section \<open>Properties of the simulated variant set\<close>

lemma getVariants_dense:
  "1 \<le> variantDensity vs
     \<Longrightarrow> getVariants G vs name startPosition endPosition
         = map (generateVariant G vs name) [startPosition..endPosition - 1]"
  by (simp add: getVariants_def)

text \<open>
  C8. A simulated variant set of density 1, asked for the half-open range from
  \<open>startPosition\<close> to \<open>endPosition\<close> (the first not above the second), returns
  \<open>endPosition - startPosition\<close> records, and their start positions are the positions
  of the range, each once and in order.
\<close>

theorem density_one_gives_one_variant_per_position:
  assumes "variantDensity vs = 1" and "startPosition \<le> endPosition"
  shows "int (length (getVariants G vs name startPosition endPosition))
           = endPosition - startPosition
     \<and> map variant_start (getVariants G vs name startPosition endPosition)
           = [startPosition..endPosition - 1]"
proof -
  have "1 \<le> variantDensity vs" using assms(1) by simp
  from getVariants_dense [OF this] have
    g: "getVariants G vs name startPosition endPosition
          = map (generateVariant G vs name) [startPosition..endPosition - 1]" .
  have "map variant_start (map (generateVariant G vs name) ps) = ps" for ps
    by (induction ps) (simp_all add: generateVariant_def)
  then show ?thesis
    using assms(2) by (simp add: g)
qed

theorem density_one_gives_one_variant_per_position_witness:
  "int (length (getVariants demo_prng (SimulatedVariantSet_init ''variantSet1'' 0 2 1 1000)
                  ''ref'' 100 103)) = 103 - 100
   \<and> map variant_start (getVariants demo_prng (SimulatedVariantSet_init ''variantSet1'' 0 2 1 1000)
                           ''ref'' 100 103) = [100, 101, 102]"
proof -
  let ?vs = "SimulatedVariantSet_init ''variantSet1'' 0 2 1 1000"
  have d: "variantDensity ?vs = 1"
    by (simp add: SimulatedVariantSet_init_def)
  have r: "(100::int) \<le> 103" by simp
  have u: "[100..103 - 1] = [100, 101, 102::int]"
    by (simp add: upto.simps)
  from density_one_gives_one_variant_per_position [OF d r, of demo_prng "''ref''"]
  show ?thesis
    unfolding u by simp
qed

text \<open>
  C5. Two simulated variant sets constructed with the same identifier, seed, call count
  and density, the density at least 1, at two times \<open>now1\<close> and \<open>now2\<close>, and asked
  with the same reference name and range, return lists of records that are equal once
  the two timestamps of every record are set to 0, as the unit test compares them; and
  in every record of either list the creation and update timestamps are equal, both
  being the time at which its generator was constructed.
\<close>

theorem equal_parameters_give_equal_variants:
  assumes "1 \<le> D"
  shows "map without_timestamps
           (getVariants G (SimulatedVariantSet_init localId S C D now1) name startPosition
              endPosition)
         = map without_timestamps
             (getVariants G (SimulatedVariantSet_init localId S C D now2) name startPosition
                endPosition)
     \<and> (\<forall>v \<in> set (getVariants G (SimulatedVariantSet_init localId S C D now1) name
                      startPosition endPosition).
           created v = updated v \<and> created v = now1)
     \<and> (\<forall>v \<in> set (getVariants G (SimulatedVariantSet_init localId S C D now2) name
                      startPosition endPosition).
           created v = updated v \<and> created v = now2)"
proof -
  have d: "1 \<le> variantDensity (SimulatedVariantSet_init localId S C D now)" for now
    using assms by (simp add: SimulatedVariantSet_init_def)
  have eq: "without_timestamps
              (generateVariant G (SimulatedVariantSet_init localId S C D now1) name p)
            = without_timestamps
                (generateVariant G (SimulatedVariantSet_init localId S C D now2) name p)" for p
    by (simp add: without_timestamps_def generateVariant_def SimulatedVariantSet_init_def)
  have ts: "created (generateVariant G (SimulatedVariantSet_init localId S C D now) name p) = now"
           "updated (generateVariant G (SimulatedVariantSet_init localId S C D now) name p) = now"
    for now p
    by (simp_all add: generateVariant_def SimulatedVariantSet_init_def)
  show ?thesis
    unfolding getVariants_dense [OF d]
    by (auto simp add: eq ts)
qed

theorem equal_parameters_give_equal_variants_witness:
  "map without_timestamps
     (getVariants demo_prng (SimulatedVariantSet_init ''variantSet1'' 0 2 1 1000) ''ref'' 100 103)
   = map without_timestamps
       (getVariants demo_prng (SimulatedVariantSet_init ''variantSet1'' 0 2 1 2000) ''ref'' 100 103)
   \<and> map created
       (getVariants demo_prng (SimulatedVariantSet_init ''variantSet1'' 0 2 1 1000) ''ref'' 100 103)
     = [1000, 1000, 1000]
   \<and> map updated
       (getVariants demo_prng (SimulatedVariantSet_init ''variantSet1'' 0 2 1 2000) ''ref'' 100 103)
     = [2000, 2000, 2000]"
proof -
  have d: "(1::rat) \<le> 1" by simp
  note inst = equal_parameters_give_equal_variants
                [OF d, of demo_prng "''variantSet1''" 0 2 1000 "''ref''" 100 103 2000]
  have u: "[100..103 - 1] = [100, 101, 102::int]"
    by (simp add: upto.simps)
  have c: "map created
       (getVariants demo_prng (SimulatedVariantSet_init ''variantSet1'' 0 2 1 1000) ''ref'' 100 103)
     = [1000, 1000, 1000]"
    by (simp add: getVariants_def u generateVariant_def SimulatedVariantSet_init_def)
  have c2: "map updated
       (getVariants demo_prng (SimulatedVariantSet_init ''variantSet1'' 0 2 1 2000) ''ref'' 100 103)
     = [2000, 2000, 2000]"
    by (simp add: getVariants_def u generateVariant_def SimulatedVariantSet_init_def)
  from inst c c2 show ?thesis
    by blast
qed


end
